theory Spec2Isabelle
  imports Main
begin

section \<open>TinyLink: short codes, the links table and the request handlers\<close>

text \<open>
  The development follows \<^verbatim>\<open>server.js\<close> and \<^verbatim>\<open>db/init.js\<close>. The handlers of
  \<^verbatim>\<open>server.js\<close> are anonymous; they are named here after their routes. The names the
  specification uses for them are: create (\<open>post_links\<close>), get (\<open>get_link\<close>),
  delete (\<open>delete_link\<close>) and recordClick (\<open>get_code\<close>, the redirect).

  What is outside the program is a parameter or a stated reading:
  \<^item> \<open>new_URL\<close> is the platform's URL constructor: \<open>None\<close> when it throws, otherwise
    the protocol of the parsed URL;
  \<^item> \<open>rnd i n\<close> is the value of \<^verbatim>\<open>Math.floor(Math.random() * n)\<close> at the \<open>i\<close>-th call
    of \<^verbatim>\<open>Math.random()\<close>; \<^verbatim>\<open>Math.random()\<close> lies in [0, 1), so the value is below
    \<open>n\<close> for the two bounds the program uses (3 and 62);
  \<^item> \<open>now\<close> is the value of \<^verbatim>\<open>NOW()\<close> in the one statement of a request that uses it;
  \<^item> a string is the list of the code units of the JavaScript string, each below 256;
  \<^item> every query is one statement of the database: it either throws, and then has changed
    no row, or returns its rows. A statement throws for a text parameter with a NUL
    character, for an \<^verbatim>\<open>INTEGER\<close> result above 2147483647, for an exhausted sequence of
    \<^verbatim>\<open>id\<close>, for a code longer than \<^verbatim>\<open>VARCHAR(8)\<close>, for a second row with the same
    \<^verbatim>\<open>short_code\<close>, and for a \<^verbatim>\<open>target_url\<close> whose entry the index \<^verbatim>\<open>idx_target_url\<close> cannot
    hold;
  \<^item> the database is free in the order of the rows of a result, since no query that the
    routes below run has an \<^verbatim>\<open>ORDER BY\<close>: the rows come sorted by a key \<open>row_key\<close> that the
    database chooses for the request. The list \<open>rows\<close> of a table only enumerates its
    rows; no route reads it but through such a result.
\<close>

subsection \<open>Helper functions of server.js\<close>

type_synonym rng = "nat \<Rightarrow> nat \<Rightarrow> nat"

definition chars :: string where
  "chars = ''ABCDEFGHIJKLMNOPQRSTUVWXYZabcdefghijklmnopqrstuvwxyz0123456789''"

text \<open>\<^verbatim>\<open>String.prototype.charAt\<close>: the empty string when the index is out of range.\<close>

definition charAt :: "string \<Rightarrow> nat \<Rightarrow> string" where
  "charAt s k = (if k < length s then [s ! k] else [])"

text \<open>
  The \<^verbatim>\<open>for\<close> loop of \<^verbatim>\<open>generateShortCode\<close>: \<open>k\<close> iterations are left, \<open>pos\<close> counts
  the calls of \<^verbatim>\<open>Math.random()\<close> made so far.
\<close>

fun code_loop :: "rng \<Rightarrow> nat \<Rightarrow> nat \<Rightarrow> string \<Rightarrow> string" where
  "code_loop rnd pos 0 code = code"
| "code_loop rnd pos (Suc k) code =
     code_loop rnd (Suc pos) k (code @ charAt chars (rnd pos (length chars)))"

definition generateShortCode :: "rng \<Rightarrow> nat \<Rightarrow> string \<times> nat" where
  "generateShortCode rnd pos =
     (let len = rnd pos 3 + 6
      in (code_loop rnd (Suc pos) len [], Suc pos + len))"

type_synonym url_ctor = "string \<Rightarrow> string option"

definition isValidUrl :: "url_ctor \<Rightarrow> string \<Rightarrow> bool" where
  "isValidUrl new_URL url = (case new_URL url of Some _ \<Rightarrow> True | None \<Rightarrow> False)"

text \<open>
  The regular expression \<^verbatim>\<open>/^[A-Za-z0-9]{6,8}$/\<close>: a character class is a list of
  ranges of character codes; \<open>test_rep cls lo hi s\<close> matches \<^verbatim>\<open>^cls{lo,hi}$\<close> against
  the whole of \<open>s\<close> (without the \<^verbatim>\<open>m\<close> flag, \<^verbatim>\<open>$\<close> is the end of the input).
\<close>

type_synonym char_class = "(char \<times> char) list"

definition in_class :: "char_class \<Rightarrow> char \<Rightarrow> bool" where
  "in_class cls c =
     list_ex (\<lambda>(lo, hi). (of_char lo :: nat) \<le> of_char c \<and> (of_char c :: nat) \<le> of_char hi) cls"

fun test_rep :: "char_class \<Rightarrow> nat \<Rightarrow> nat \<Rightarrow> string \<Rightarrow> bool" where
  "test_rep cls lo hi [] = (lo = 0)"
| "test_rep cls lo hi (c # cs) = (0 < hi \<and> in_class cls c \<and> test_rep cls (lo - 1) (hi - 1) cs)"

definition isValidCode :: "string \<Rightarrow> bool" where
  "isValidCode code =
     test_rep [(CHR ''A'', CHR ''Z''), (CHR ''a'', CHR ''z''), (CHR ''0'', CHR ''9'')] 6 8 code"

text \<open>
  The alphabet in the words of the specification: 26 lower-case letters, 26 upper-case
  letters and 10 digits.
\<close>

definition alphanumeric :: "char set" where
  "alphanumeric = set ''abcdefghijklmnopqrstuvwxyz'' \<union> set ''ABCDEFGHIJKLMNOPQRSTUVWXYZ''
     \<union> set ''0123456789''"

subsection \<open>The database of db/init.js\<close>

type_synonym timestamp = nat

text \<open>
  A row of \<^verbatim>\<open>links\<close>. The column \<^verbatim>\<open>id\<close> is the field \<open>link_id\<close>; \<^verbatim>\<open>last_clicked\<close> is the
  one column that is \<^verbatim>\<open>NULL\<close> in a row the program wrote.
\<close>

record link =
  link_id :: nat
  short_code :: string
  target_url :: string
  total_clicks :: int
  creation_count :: int
  last_clicked :: "timestamp option"
  created_at :: timestamp
  updated_at :: timestamp

text \<open>The rows of \<^verbatim>\<open>links\<close> and the next value of the sequence behind \<^verbatim>\<open>id SERIAL\<close>.\<close>

record links_table =
  rows :: "link list"
  next_id :: nat

definition empty_table :: links_table where
  "empty_table = \<lparr>rows = [], next_id = 1\<rparr>"

text \<open>
  What the database decides for a request: the key by which the rows of a result come
  sorted, and which values of \<^verbatim>\<open>target_url\<close> fit into an entry of the index
  \<^verbatim>\<open>idx_target_url\<close> (an entry is limited to about a third of a page, after compression).
\<close>

record database =
  row_key :: "link \<Rightarrow> nat"
  index_fits :: "string \<Rightarrow> bool"

text \<open>A query of \<^verbatim>\<open>pool.query\<close>: the promise is rejected, or resolves with the rows.\<close>

datatype 'a outcome = Throws | Returns 'a

text \<open>
  A text parameter is refused when it has a NUL character (\<^verbatim>\<open>invalid byte sequence for
  encoding "UTF8": 0x00\<close>).
\<close>

definition pg_text :: "string \<Rightarrow> bool" where
  "pg_text s \<longleftrightarrow> CHR 0x00 \<notin> set s"

text \<open>
  \<^verbatim>\<open>n + 1\<close> in a column of type \<^verbatim>\<open>INTEGER\<close>: \<open>None\<close> is \<^verbatim>\<open>integer out of range\<close>.
\<close>

definition integer_plus_1 :: "int \<Rightarrow> int option" where
  "integer_plus_1 n = (if 2147483647 < n + 1 then None else Some (n + 1))"

text \<open>
  A value stored in a column of type \<^verbatim>\<open>VARCHAR(8)\<close>: a longer string is an error, unless
  all characters after the eighth are spaces, which are cut off.
\<close>

definition varchar8 :: "string \<Rightarrow> string option" where
  "varchar8 s =
     (if length s \<le> 8 then Some s
      else if list_all (\<lambda>c. c = CHR '' '') (drop 8 s) then Some (take 8 s)
      else None)"

text \<open>The rows of a result, in the order in which the database delivers them.\<close>

definition deliver :: "database \<Rightarrow> link list \<Rightarrow> link list" where
  "deliver db ls = sort_key (row_key db) ls"

text \<open>\<^verbatim>\<open>SELECT ... FROM links WHERE short_code = $1\<close> and \<^verbatim>\<open>... WHERE target_url = $1\<close>.\<close>

definition select_by_code :: "database \<Rightarrow> links_table \<Rightarrow> string \<Rightarrow> link list outcome" where
  "select_by_code db t code =
     (if pg_text code then Returns (deliver db (filter (\<lambda>l. short_code l = code) (rows t)))
      else Throws)"

definition select_by_url :: "database \<Rightarrow> links_table \<Rightarrow> string \<Rightarrow> link list outcome" where
  "select_by_url db t url =
     (if pg_text url then Returns (deliver db (filter (\<lambda>l. target_url l = url) (rows t)))
      else Throws)"

text \<open>
  \<^verbatim>\<open>INSERT INTO links (short_code, target_url, total_clicks, creation_count, created_at,
  updated_at) VALUES ($1, $2, 0, 1, NOW(), NOW()) RETURNING ...\<close>. A refused parameter and
  an exhausted sequence leave the table as it is; the later errors (the length of the
  code, the \<^verbatim>\<open>UNIQUE\<close> constraint of \<^verbatim>\<open>short_code\<close>, the entry of the index) come when the
  value of the sequence has been taken, which is then used up.
\<close>

definition new_link :: "nat \<Rightarrow> string \<Rightarrow> string \<Rightarrow> timestamp \<Rightarrow> link" where
  "new_link i code url now =
     \<lparr>link_id = i, short_code = code, target_url = url, total_clicks = 0, creation_count = 1,
      last_clicked = None, created_at = now, updated_at = now\<rparr>"

definition insert_link ::
  "database \<Rightarrow> links_table \<Rightarrow> string \<Rightarrow> string \<Rightarrow> timestamp \<Rightarrow> link outcome \<times> links_table" where
  "insert_link db t code url now =
     (if \<not> pg_text code \<or> \<not> pg_text url then (Throws, t)
      else if 2147483647 < next_id t then (Throws, t)
      else case varchar8 code of
          None \<Rightarrow> (Throws, t\<lparr>next_id := Suc (next_id t)\<rparr>)
        | Some c \<Rightarrow>
            if c \<in> set (map short_code (rows t)) \<or> \<not> index_fits db url
            then (Throws, t\<lparr>next_id := Suc (next_id t)\<rparr>)
            else (Returns (new_link (next_id t) c url now),
                  \<lparr>rows = rows t @ [new_link (next_id t) c url now], next_id = Suc (next_id t)\<rparr>))"

text \<open>
  \<^verbatim>\<open>UPDATE links SET creation_count = creation_count + 1, updated_at = NOW() WHERE id = $1
  RETURNING ...\<close>. \<open>bump_creation\<close> is the new version of one row, \<open>None\<close> when the sum is
  out of range; the statement throws, and changes no row, when that is so for one of its
  rows, and otherwise returns the rows it has updated.
\<close>

definition bump_creation :: "timestamp \<Rightarrow> link \<Rightarrow> link option" where
  "bump_creation now l =
     (case integer_plus_1 (creation_count l) of
        None \<Rightarrow> None
      | Some n \<Rightarrow> Some (l\<lparr>creation_count := n, updated_at := now\<rparr>))"

definition update_creation_count ::
  "database \<Rightarrow> links_table \<Rightarrow> nat \<Rightarrow> timestamp \<Rightarrow> link list outcome \<times> links_table" where
  "update_creation_count db t i now =
     (case those (map (\<lambda>l. if link_id l = i then bump_creation now l else Some l) (rows t)) of
        None \<Rightarrow> (Throws, t)
      | Some ls \<Rightarrow> (Returns (deliver db (filter (\<lambda>l. link_id l = i) ls)), t\<lparr>rows := ls\<rparr>))"

text \<open>
  \<^verbatim>\<open>UPDATE links SET total_clicks = total_clicks + 1, last_clicked = NOW()
  WHERE short_code = $1 RETURNING *\<close>, in the same way.
\<close>

definition click :: "timestamp \<Rightarrow> link \<Rightarrow> link option" where
  "click now l =
     (case integer_plus_1 (total_clicks l) of
        None \<Rightarrow> None
      | Some n \<Rightarrow> Some (l\<lparr>total_clicks := n, last_clicked := Some now\<rparr>))"

definition update_clicks ::
  "database \<Rightarrow> links_table \<Rightarrow> string \<Rightarrow> timestamp \<Rightarrow> link list outcome \<times> links_table" where
  "update_clicks db t code now =
     (if \<not> pg_text code then (Throws, t)
      else case those (map (\<lambda>l. if short_code l = code then click now l else Some l) (rows t)) of
          None \<Rightarrow> (Throws, t)
        | Some ls \<Rightarrow> (Returns (deliver db (filter (\<lambda>l. short_code l = code) ls)), t\<lparr>rows := ls\<rparr>))"

text \<open>\<^verbatim>\<open>DELETE FROM links WHERE short_code = $1 RETURNING *\<close>.\<close>

definition delete_by_code ::
  "database \<Rightarrow> links_table \<Rightarrow> string \<Rightarrow> link list outcome \<times> links_table" where
  "delete_by_code db t code =
     (if \<not> pg_text code then (Throws, t)
      else (Returns (deliver db (filter (\<lambda>l. short_code l = code) (rows t))),
            t\<lparr>rows := filter (\<lambda>l. short_code l \<noteq> code) (rows t)\<rparr>))"

text \<open>
  What the schema guarantees of every table: \<^verbatim>\<open>id\<close> is the primary key and comes from
  the sequence, \<^verbatim>\<open>short_code\<close> is \<^verbatim>\<open>UNIQUE\<close>, and no stored text has a NUL character.
\<close>

definition wf_table :: "links_table \<Rightarrow> bool" where
  "wf_table t \<longleftrightarrow>
     distinct (map link_id (rows t)) \<and> distinct (map short_code (rows t)) \<and>
     list_all (\<lambda>l. link_id l < next_id t \<and> pg_text (short_code l) \<and> pg_text (target_url l)) (rows t)"

subsection \<open>The routes of server.js\<close>

text \<open>
  The answers that carry an error, with their status: 400 \<^verbatim>\<open>Invalid URL\<close>, 400
  \<^verbatim>\<open>Code must be 6-8 alphanumeric characters\<close>, 409 \<^verbatim>\<open>Code already exists\<close>, 404
  \<^verbatim>\<open>Link not found\<close>, 503 \<^verbatim>\<open>Database not available\<close>, and 500 \<^verbatim>\<open>Internal server error\<close>,
  the answer of the \<^verbatim>\<open>catch\<close> of every route to a query that throws.
\<close>

datatype error = Invalid_URL | Invalid_Code | Code_Exists | Not_Found | Db_Unavailable | Internal_Error

text \<open>
  The two successful answers of \<^verbatim>\<open>POST /api/links\<close>: 201 with the inserted row, and 200
  with \<^verbatim>\<open>updated.rows[0]\<close> and the message \<^verbatim>\<open>URL already exists. Creation count
  incremented.\<close> (\<^verbatim>\<open>updated.rows[0]\<close> is \<^verbatim>\<open>undefined\<close> when no row was updated).
\<close>

datatype created = Created link | Incremented "link option"

text \<open>
  The \<^verbatim>\<open>while (codeExists)\<close> loop of \<^verbatim>\<open>POST /api/links\<close>. It has no bound, so it is a
  partial function: \<open>None\<close> means that the loop never ends. It ends with \<open>Throws\<close> when
  its query throws. The second component counts the calls of \<^verbatim>\<open>Math.random()\<close>.
\<close>

partial_function (option) unique_code_loop ::
  "database \<Rightarrow> rng \<Rightarrow> links_table \<Rightarrow> string \<Rightarrow> nat \<Rightarrow> (string outcome \<times> nat) option" where
  "unique_code_loop db rnd t code pos =
     (case select_by_code db t code of
        Throws \<Rightarrow> Some (Throws, pos)
      | Returns codeCheck \<Rightarrow>
          if codeCheck = [] then Some (Returns code, pos)
          else unique_code_loop db rnd t (fst (generateShortCode rnd pos)) (snd (generateShortCode rnd pos)))"

text \<open>
  In JavaScript \<^verbatim>\<open>short_code\<close> counts as given when it is neither absent nor the empty
  string; both tests \<^verbatim>\<open>if (short_code ...)\<close> of the route read it through \<open>given_code\<close>.
\<close>

definition given_code :: "string option \<Rightarrow> string option" where
  "given_code s = (case s of None \<Rightarrow> None | Some c \<Rightarrow> if c = [] then None else Some c)"

text \<open>
  \<^verbatim>\<open>POST /api/links\<close>. \<open>pool\<close> is \<open>None\<close> when the pool could not be created. The result
  is the answer, the table afterwards and the number of calls of \<^verbatim>\<open>Math.random()\<close>;
  it is \<open>None\<close> when the request never gets an answer. \<open>req_url\<close> and \<open>req_code\<close> are
  the fields \<^verbatim>\<open>target_url\<close> and \<^verbatim>\<open>short_code\<close> of the request body.
\<close>

definition post_links ::
  "url_ctor \<Rightarrow> database \<Rightarrow> rng \<Rightarrow> links_table option \<Rightarrow> timestamp \<Rightarrow> nat \<Rightarrow> string \<Rightarrow> string option
     \<Rightarrow> ((error + created) \<times> links_table option \<times> nat) option" where
  "post_links new_URL db rnd pool now pos req_url req_code =
     (if req_url = [] \<or> \<not> isValidUrl new_URL req_url then Some (Inl Invalid_URL, pool, pos)
      else case pool of
        None \<Rightarrow> Some (Inl Db_Unavailable, pool, pos)
      | Some t \<Rightarrow>
          (case given_code req_code of
             Some c \<Rightarrow>
               if \<not> isValidCode c then Some (Inl Invalid_Code, pool, pos)
               else (case select_by_code db t c of
                   Throws \<Rightarrow> Some (Inl Internal_Error, pool, pos)
                 | Returns existing \<Rightarrow>
                     if existing \<noteq> [] then Some (Inl Code_Exists, pool, pos)
                     else (case insert_link db t c req_url now of
                         (Throws, t') \<Rightarrow> Some (Inl Internal_Error, Some t', pos)
                       | (Returns l, t') \<Rightarrow> Some (Inr (Created l), Some t', pos)))
           | None \<Rightarrow>
               (case select_by_url db t req_url of
                  Throws \<Rightarrow> Some (Inl Internal_Error, pool, pos)
                | Returns (e # _) \<Rightarrow>
                    (case update_creation_count db t (link_id e) now of
                       (Throws, t') \<Rightarrow> Some (Inl Internal_Error, Some t', pos)
                     | (Returns updated, t') \<Rightarrow>
                         Some (Inr (Incremented (case updated of [] \<Rightarrow> None | u # _ \<Rightarrow> Some u)),
                               Some t', pos))
                | Returns [] \<Rightarrow>
                    (case unique_code_loop db rnd t (fst (generateShortCode rnd pos))
                            (snd (generateShortCode rnd pos)) of
                       None \<Rightarrow> None
                     | Some (Throws, pos') \<Rightarrow> Some (Inl Internal_Error, pool, pos')
                     | Some (Returns code, pos') \<Rightarrow>
                         (case insert_link db t code req_url now of
                            (Throws, t') \<Rightarrow> Some (Inl Internal_Error, Some t', pos')
                          | (Returns l, t') \<Rightarrow> Some (Inr (Created l), Some t', pos'))))))"

text \<open>\<^verbatim>\<open>GET /api/links/:code\<close>: a read, the table stays as it is.\<close>

definition get_link :: "database \<Rightarrow> links_table option \<Rightarrow> string \<Rightarrow> error + link" where
  "get_link db pool code =
     (case pool of
        None \<Rightarrow> Inl Db_Unavailable
      | Some t \<Rightarrow>
          (case select_by_code db t code of
             Throws \<Rightarrow> Inl Internal_Error
           | Returns [] \<Rightarrow> Inl Not_Found
           | Returns (l # _) \<Rightarrow> Inr l))"

text \<open>\<^verbatim>\<open>DELETE /api/links/:code\<close>.\<close>

definition delete_link ::
  "database \<Rightarrow> links_table option \<Rightarrow> string \<Rightarrow> (error + unit) \<times> links_table option" where
  "delete_link db pool code =
     (case pool of
        None \<Rightarrow> (Inl Db_Unavailable, pool)
      | Some t \<Rightarrow>
          (case delete_by_code db t code of
             (Throws, t') \<Rightarrow> (Inl Internal_Error, Some t')
           | (Returns [], t') \<Rightarrow> (Inl Not_Found, Some t')
           | (Returns (_ # _), t') \<Rightarrow> (Inr (), Some t')))"

text \<open>
  \<^verbatim>\<open>GET /:code\<close>, the redirect. The route does not test \<^verbatim>\<open>pool\<close>: without a pool
  \<^verbatim>\<open>pool.query\<close> throws and the \<^verbatim>\<open>catch\<close> answers 500. The successful answer is the row
  \<^verbatim>\<open>result.rows[0]\<close> that the update returned; the route hands its \<^verbatim>\<open>target_url\<close> to
  \<^verbatim>\<open>res.redirect\<close> with status 302.
\<close>

definition get_code ::
  "database \<Rightarrow> links_table option \<Rightarrow> timestamp \<Rightarrow> string \<Rightarrow> (error + link) \<times> links_table option" where
  "get_code db pool now code =
     (case pool of
        None \<Rightarrow> (Inl Internal_Error, pool)
      | Some t \<Rightarrow>
          (case update_clicks db t code now of
             (Throws, t') \<Rightarrow> (Inl Internal_Error, Some t')
           | (Returns [], t') \<Rightarrow> (Inl Not_Found, Some t')
           | (Returns (l # _), t') \<Rightarrow> (Inr l, Some t')))"

subsection \<open>Notions used to state the properties\<close>

text \<open>
  The tables that requests can produce from the empty table. The random indices of a
  request are in range, as the platform guarantees.
\<close>

inductive reachable :: "links_table \<Rightarrow> bool" where
  initial: "reachable empty_table"
| post: "reachable t \<Longrightarrow> \<forall>i. rnd i 3 < 3 \<and> rnd i 62 < 62 \<Longrightarrow>
     post_links new_URL db rnd (Some t) now pos url code = Some (r, Some t', pos') \<Longrightarrow> reachable t'"
| delete: "reachable t \<Longrightarrow> delete_link db (Some t) code = (r, Some t') \<Longrightarrow> reachable t'"
| redirect: "reachable t \<Longrightarrow> get_code db (Some t) now code = (r, Some t') \<Longrightarrow> reachable t'"

code_pred reachable .

text \<open>
  The candidates that \<^verbatim>\<open>POST /api/links\<close> generates, in order: number 0 is the call of
  \<open>generateShortCode\<close> before the loop, number \<open>k + 1\<close> the call in the \<open>k + 1\<close>-th
  iteration. Each comes with the count of calls of \<^verbatim>\<open>Math.random()\<close> after it.
\<close>

fun candidate :: "rng \<Rightarrow> nat \<Rightarrow> nat \<Rightarrow> string \<times> nat" where
  "candidate rnd pos 0 = generateShortCode rnd pos"
| "candidate rnd pos (Suc k) = generateShortCode rnd (snd (candidate rnd pos k))"

text \<open>
  The database of the examples: it delivers rows in the order of their \<^verbatim>\<open>id\<close>, and its
  index holds every URL of at most 1000 characters.
\<close>

definition example_db :: database where
  "example_db = \<lparr>row_key = link_id, index_fits = (\<lambda>u. length u \<le> 1000)\<rparr>"

text \<open>Every stored code has the shape that \<open>isValidCode\<close> tests.\<close>

definition codes_valid :: "links_table \<Rightarrow> bool" where
  "codes_valid t = list_all (\<lambda>l. isValidCode (short_code l)) (rows t)"

section \<open>Properties\<close>

subsection \<open>The pattern of a code\<close>

lemma test_rep_iff:
  "test_rep cls lo hi s \<longleftrightarrow>
     lo \<le> length s \<and> length s \<le> hi \<and> (\<forall>c\<in>set s. in_class cls c)"
  by (induction s arbitrary: lo hi) auto

lemma in_class_alnum:
  "in_class [(CHR ''A'', CHR ''Z''), (CHR ''a'', CHR ''z''), (CHR ''0'', CHR ''9'')] c \<longleftrightarrow>
     c \<in> alphanumeric"
  by (cases c) (simp add: in_class_def alphanumeric_def)

lemma isValidCode_iff:
  "isValidCode code \<longleftrightarrow> 6 \<le> length code \<and> length code \<le> 8 \<and> set code \<subseteq> alphanumeric"
  by (auto simp: isValidCode_def test_rep_iff in_class_alnum)

subsection \<open>Generated codes\<close>

lemma length_chars: "length chars = 62"
  by (simp add: chars_def)

lemma distinct_chars: "distinct chars"
  by (simp add: chars_def)

lemma set_chars: "set chars = alphanumeric"
  by (simp add: chars_def alphanumeric_def insert_commute)

lemma charAt_chars:
  "k < 62 \<Longrightarrow> length (charAt chars k) = 1 \<and> set (charAt chars k) \<subseteq> alphanumeric"
  using nth_mem [of k chars] by (simp add: charAt_def length_chars set_chars)

lemma code_loop_length:
  "\<forall>i. rnd i 62 < 62 \<Longrightarrow> length (code_loop rnd pos k code) = length code + k"
  by (induction k arbitrary: pos code) (simp_all add: charAt_chars length_chars)

lemma code_loop_set:
  "\<forall>i. rnd i 62 < 62 \<Longrightarrow> set code \<subseteq> alphanumeric \<Longrightarrow>
     set (code_loop rnd pos k code) \<subseteq> alphanumeric"
  by (induction k arbitrary: pos code) (simp_all add: charAt_chars length_chars)

lemma generateShortCode_valid: 
  assumes "\<forall>i. rnd i 3 < 3 \<and> rnd i 62 < 62"
  shows "isValidCode (fst (generateShortCode rnd pos))"
proof -
  have r62: "\<forall>i. rnd i 62 < 62" and r3: "rnd pos 3 < 3"
    using assms by simp_all
  have "length (fst (generateShortCode rnd pos)) = rnd pos 3 + 6"
    using r62 by (simp add: generateShortCode_def Let_def code_loop_length)
  moreover have "set (fst (generateShortCode rnd pos)) \<subseteq> alphanumeric"
    using r62 by (simp add: generateShortCode_def Let_def code_loop_set)
  ultimately show ?thesis
    using r3 by (simp add: isValidCode_iff)
qed

lemma NUL_not_alphanumeric: "CHR 0x00 \<notin> alphanumeric"
  by (simp add: alphanumeric_def)

lemma isValidCode_stored:
  assumes "isValidCode c"
  shows "pg_text c" and "varchar8 c = Some c" and "c \<noteq> []"
proof -
  from assms have l: "6 \<le> length c" "length c \<le> 8" and s: "set c \<subseteq> alphanumeric"
    by (simp_all add: isValidCode_iff)
  from s NUL_not_alphanumeric show "pg_text c"
    by (auto simp: pg_text_def)
  from l show "varchar8 c = Some c"
    by (simp add: varchar8_def)
  from l show "c \<noteq> []"
    by auto
qed

subsection \<open>The statements of the database\<close>

lemma deliver_Nil: "deliver db [] = []"
  by (simp add: deliver_def)

lemma deliver_single: "deliver db [x] = [x]"
  by (simp add: deliver_def)

lemma set_deliver: "set (deliver db ls) = set ls"
  by (simp add: deliver_def)

lemma deliver_eq_Nil: "deliver db ls = [] \<longleftrightarrow> ls = []"
  using set_deliver [of db ls] by (metis set_empty)

lemma filter_distinct_key:
  "distinct (map f xs) \<Longrightarrow> x \<in> set xs \<Longrightarrow> filter (\<lambda>y. f y = f x) xs = [x]"
proof (induction xs)
  case Nil
  then show ?case by simp
next
  case (Cons a xs)
  show ?case
  proof (cases "a = x")
    case True
    with Cons.prems have "\<forall>y\<in>set xs. f y \<noteq> f x"
      by (auto simp: image_iff)
    then have "filter (\<lambda>y. f y = f x) xs = []"
      by (simp add: filter_empty_conv)
    with True show ?thesis by simp
  next
    case False
    with Cons.prems have "x \<in> set xs" and "f a \<noteq> f x"
      by (auto simp: image_iff)
    with Cons show ?thesis by simp
  qed
qed

lemma filter_absent: "c \<notin> set (map f xs) \<Longrightarrow> filter (\<lambda>y. f y = c) xs = []"
  by (auto simp: filter_empty_conv)

lemma select_by_code_absent:
  "pg_text c \<Longrightarrow> c \<notin> set (map short_code (rows t)) \<Longrightarrow> select_by_code db t c = Returns []"
  by (simp add: select_by_code_def filter_absent deliver_Nil)

lemma select_by_code_Throws: "select_by_code db t c = Throws \<longleftrightarrow> \<not> pg_text c"
  by (simp add: select_by_code_def)

lemma select_by_code_Returns_Nil:
  "select_by_code db t c = Returns [] \<longleftrightarrow> pg_text c \<and> c \<notin> set (map short_code (rows t))"
  by (auto simp: select_by_code_def deliver_eq_Nil filter_empty_conv)

lemma select_by_code_present:
  assumes "pg_text c" and "c \<in> set (map short_code (rows t))"
  shows "\<exists>l ls. select_by_code db t c = Returns (l # ls)"
proof -
  from assms(2) have "filter (\<lambda>l. short_code l = c) (rows t) \<noteq> []"
    by (auto simp: filter_empty_conv)
  then have "deliver db (filter (\<lambda>l. short_code l = c) (rows t)) \<noteq> []"
    by (simp add: deliver_eq_Nil)
  with assms(1) show ?thesis
    by (cases "deliver db (filter (\<lambda>l. short_code l = c) (rows t))") (simp_all add: select_by_code_def)
qed

lemma select_by_url_absent:
  "pg_text u \<Longrightarrow> u \<notin> set (map target_url (rows t)) \<Longrightarrow> select_by_url db t u = Returns []"
  by (simp add: select_by_url_def filter_absent deliver_Nil)

lemma select_by_url_first:
  assumes "select_by_url db t u = Returns (e # es)"
  shows "e \<in> set (rows t)" and "target_url e = u" and "pg_text u"
proof -
  from assms have p: "pg_text u"
    and d: "deliver db (filter (\<lambda>l. target_url l = u) (rows t)) = e # es"
    by (simp_all add: select_by_url_def split: if_splits)
  from d have "e \<in> set (deliver db (filter (\<lambda>l. target_url l = u) (rows t)))"
    by simp
  then show "e \<in> set (rows t)" and "target_url e = u"
    by (simp_all add: set_deliver)
  from p show "pg_text u" .
qed

lemma insert_link_stored:
  assumes "pg_text c" and "varchar8 c = Some c" and "c \<notin> set (map short_code (rows t))"
  shows "insert_link db t c url now =
     (if \<not> pg_text url \<or> 2147483647 < next_id t then (Throws, t)
      else if \<not> index_fits db url then (Throws, t\<lparr>next_id := Suc (next_id t)\<rparr>)
      else (Returns (new_link (next_id t) c url now),
            \<lparr>rows = rows t @ [new_link (next_id t) c url now], next_id = Suc (next_id t)\<rparr>))"
  using assms by (simp add: insert_link_def)

lemma insert_link_Throws_rows: "insert_link db t c url now = (Throws, t') \<Longrightarrow> rows t' = rows t"
  by (auto simp: insert_link_def split: if_splits option.splits)

lemma insert_link_Returns:
  assumes "insert_link db t c url now = (Returns l, t')"
  shows "\<exists>c'. varchar8 c = Some c' \<and> pg_text c \<and> pg_text url \<and> c' \<notin> set (map short_code (rows t)) \<and>
           l = new_link (next_id t) c' url now \<and>
           t' = \<lparr>rows = rows t @ [new_link (next_id t) c' url now], next_id = Suc (next_id t)\<rparr>"
  using assms by (auto simp: insert_link_def split: if_splits option.splits)

lemma pg_text_varchar8: "pg_text c \<Longrightarrow> varchar8 c = Some c' \<Longrightarrow> pg_text c'"
  by (auto simp: varchar8_def pg_text_def split: if_splits dest: in_set_takeD)

lemma wf_table_next_id: "wf_table t \<Longrightarrow> wf_table (t\<lparr>next_id := Suc (next_id t)\<rparr>)"
  by (auto simp: wf_table_def list_all_iff)

lemma wf_table_append:
  assumes "wf_table t" and "pg_text c" and "pg_text url" and "c \<notin> set (map short_code (rows t))"
  shows "wf_table \<lparr>rows = rows t @ [new_link (next_id t) c url now], next_id = Suc (next_id t)\<rparr>"
proof -
  have ids: "next_id t \<notin> set (map link_id (rows t))"
    using assms(1) by (auto simp: wf_table_def list_all_iff)
  have lt: "list_all (\<lambda>l. link_id l < Suc (next_id t) \<and> pg_text (short_code l) \<and> pg_text (target_url l))
      (rows t)"
    using assms(1) by (auto simp: wf_table_def list_all_iff)
  show ?thesis
    using assms ids lt by (simp add: wf_table_def new_link_def)
qed

lemma wf_table_insert: "wf_table t \<Longrightarrow> wf_table (snd (insert_link db t c url now))"
proof -
  assume wf: "wf_table t"
  obtain r t' where i: "insert_link db t c url now = (r, t')"
    by (cases "insert_link db t c url now")
  show ?thesis
  proof (cases r)
    case Throws
    with i have "t' = t \<or> t' = t\<lparr>next_id := Suc (next_id t)\<rparr>"
      by (auto simp: insert_link_def split: if_splits option.splits)
    with wf wf_table_next_id [OF wf] i show ?thesis
      by auto
  next
    case (Returns l)
    with i insert_link_Returns [of db t c url now l t'] obtain c'
      where "varchar8 c = Some c'" "pg_text c" "pg_text url" "c' \<notin> set (map short_code (rows t))"
        and t': "t' = \<lparr>rows = rows t @ [new_link (next_id t) c' url now], next_id = Suc (next_id t)\<rparr>"
      by blast
    with wf_table_append [OF wf pg_text_varchar8, of c c' url now] i show ?thesis
      by simp
  qed
qed

lemma wf_table_delete: "wf_table t \<Longrightarrow> wf_table (snd (delete_by_code db t code))"
  by (auto simp: wf_table_def delete_by_code_def distinct_map_filter list_all_iff)

lemma delete_by_code_absent:
  assumes "code \<notin> set (map short_code (rows t))"
  shows "delete_by_code db t code = (if pg_text code then Returns [] else Throws, t)"
proof -
  from assms have "filter (\<lambda>l. short_code l \<noteq> code) (rows t) = rows t"
    by (auto simp: filter_id_conv)
  with assms show ?thesis
    by (simp add: delete_by_code_def filter_absent deliver_Nil)
qed

text \<open>The rows of an \<^verbatim>\<open>UPDATE\<close>: all of them get their new version, or the statement throws.\<close>

lemma those_map_Some: "\<forall>x\<in>set xs. f x = Some (h x) \<Longrightarrow> those (map f xs) = Some (map h xs)"
  by (induction xs) simp_all

lemma those_map_None: "x \<in> set xs \<Longrightarrow> f x = None \<Longrightarrow> those (map f xs) = None"
  by (induction xs) (auto split: option.splits)

lemma those_map_key:
  "those (map f xs) = Some ys \<Longrightarrow> \<forall>x y. f x = Some y \<longrightarrow> k y = k x \<Longrightarrow> map k ys = map k xs"
  by (induction xs arbitrary: ys) (auto split: option.splits)

lemma those_map_all:
  "those (map f xs) = Some ys \<Longrightarrow> \<forall>x y. f x = Some y \<longrightarrow> P x \<longrightarrow> P y \<Longrightarrow> list_all P xs \<Longrightarrow>
     list_all P ys"
  by (induction xs arbitrary: ys) (auto split: option.splits)

lemma click_keeps:
  "(if short_code x = code then click now x else Some x) = Some y \<Longrightarrow>
     link_id y = link_id x \<and> short_code y = short_code x \<and> target_url y = target_url x"
  by (auto simp: click_def split: if_splits option.splits)

lemma bump_creation_keeps:
  "(if link_id x = i then bump_creation now x else Some x) = Some y \<Longrightarrow>
     link_id y = link_id x \<and> short_code y = short_code x \<and> target_url y = target_url x"
  by (auto simp: bump_creation_def split: if_splits option.splits)

lemma wf_table_updated:
  assumes "wf_table t" and "those (map f (rows t)) = Some ls"
    and "\<forall>x y. f x = Some y \<longrightarrow>
      link_id y = link_id x \<and> short_code y = short_code x \<and> target_url y = target_url x"
  shows "wf_table (t\<lparr>rows := ls\<rparr>)"
proof -
  from those_map_key [OF assms(2), of link_id] assms(3) have i: "map link_id ls = map link_id (rows t)"
    by blast
  from those_map_key [OF assms(2), of short_code] assms(3)
  have c: "map short_code ls = map short_code (rows t)"
    by blast
  have "list_all (\<lambda>l. link_id l < next_id t \<and> pg_text (short_code l) \<and> pg_text (target_url l)) ls"
    using assms(1,3)
    by (intro those_map_all [OF assms(2)]) (auto simp: wf_table_def)
  with i c assms(1) show ?thesis
    by (simp add: wf_table_def)
qed

lemma wf_table_clicks:
  assumes "wf_table t"
  shows "wf_table (snd (update_clicks db t code now))"
proof (cases "those (map (\<lambda>l. if short_code l = code then click now l else Some l) (rows t))")
  case None
  with assms show ?thesis
    by (simp add: update_clicks_def)
next
  case (Some ls)
  have "\<forall>x y. (if short_code x = code then click now x else Some x) = Some y \<longrightarrow>
      link_id y = link_id x \<and> short_code y = short_code x \<and> target_url y = target_url x"
    using click_keeps by blast
  from wf_table_updated [OF assms Some this] Some assms show ?thesis
    by (simp add: update_clicks_def)
qed

lemma wf_table_bump:
  assumes "wf_table t"
  shows "wf_table (snd (update_creation_count db t i now))"
proof (cases "those (map (\<lambda>l. if link_id l = i then bump_creation now l else Some l) (rows t))")
  case None
  with assms show ?thesis
    by (simp add: update_creation_count_def)
next
  case (Some ls)
  have "\<forall>x y. (if link_id x = i then bump_creation now x else Some x) = Some y \<longrightarrow>
      link_id y = link_id x \<and> short_code y = short_code x \<and> target_url y = target_url x"
    using bump_creation_keeps by blast
  from wf_table_updated [OF assms Some this] Some show ?thesis
    by (simp add: update_creation_count_def)
qed

lemma update_clicks_absent:
  assumes "code \<notin> set (map short_code (rows t))"
  shows "update_clicks db t code now = (if pg_text code then Returns [] else Throws, t)"
proof -
  from assms have "\<forall>x\<in>set (rows t). (if short_code x = code then click now x else Some x) = Some (id x)"
    by auto
  from those_map_Some [OF this] assms show ?thesis
    by (simp add: update_clicks_def filter_absent deliver_Nil)
qed

lemma updated_rows:
  assumes "distinct (map k xs)" and "l \<in> set xs" and "k l' = k l"
  shows "\<forall>x\<in>set xs. (if k x = k l then Some l' else Some x) = Some (if x = l then l' else x)"
    and "filter (\<lambda>x. k x = k l) (map (\<lambda>x. if x = l then l' else x) xs) = [l']"
proof -
  from assms(1,2) have eq: "k x = k l \<longleftrightarrow> x = l" if "x \<in> set xs" for x
    using that by (auto simp: distinct_map dest: inj_onD)
  then show "\<forall>x\<in>set xs. (if k x = k l then Some l' else Some x) = Some (if x = l then l' else x)"
    by auto
  have "filter (\<lambda>x. k x = k l) (map (\<lambda>x. if x = l then l' else x) xs) =
      map (\<lambda>x. if x = l then l' else x) (filter (\<lambda>x. k x = k l) xs)"
    using assms(3) by (induction xs) auto
  with filter_distinct_key [OF assms(1,2)] show
    "filter (\<lambda>x. k x = k l) (map (\<lambda>x. if x = l then l' else x) xs) = [l']"
    by simp
qed

lemma update_clicks_present:
  assumes "distinct (map short_code (rows t))" and "l \<in> set (rows t)" and "pg_text (short_code l)"
  shows "update_clicks db t (short_code l) now =
     (if total_clicks l < 2147483647
      then (Returns [l\<lparr>total_clicks := total_clicks l + 1, last_clicked := Some now\<rparr>],
            t\<lparr>rows := map (\<lambda>r. if r = l
                             then l\<lparr>total_clicks := total_clicks l + 1, last_clicked := Some now\<rparr>
                             else r) (rows t)\<rparr>)
      else (Throws, t))"
proof (cases "total_clicks l < 2147483647")
  case True
  let ?l' = "l\<lparr>total_clicks := total_clicks l + 1, last_clicked := Some now\<rparr>"
  from True have c: "click now l = Some ?l'"
    by (simp add: click_def integer_plus_1_def)
  have k: "short_code ?l' = short_code l"
    by simp
  from assms(1,2) have eq: "short_code x = short_code l \<longleftrightarrow> x = l" if "x \<in> set (rows t)" for x
    using that by (auto simp: distinct_map dest: inj_onD)
  with c have "\<forall>x\<in>set (rows t). (if short_code x = short_code l then click now x else Some x) =
      Some (if x = l then ?l' else x)"
    by auto
  from those_map_Some [OF this] updated_rows(2) [OF assms(1,2) k] assms(3) True show ?thesis
    by (simp add: update_clicks_def deliver_single)
next
  case False
  then have "click now l = None"
    by (simp add: click_def integer_plus_1_def)
  with those_map_None [OF assms(2), of "\<lambda>x. if short_code x = short_code l then click now x else Some x"]
    assms(3) False
  show ?thesis
    by (simp add: update_clicks_def)
qed

lemma update_creation_count_present:
  assumes "distinct (map link_id (rows t))" and "l \<in> set (rows t)"
  shows "update_creation_count db t (link_id l) now =
     (if creation_count l < 2147483647
      then (Returns [l\<lparr>creation_count := creation_count l + 1, updated_at := now\<rparr>],
            t\<lparr>rows := map (\<lambda>r. if r = l
                             then l\<lparr>creation_count := creation_count l + 1, updated_at := now\<rparr>
                             else r) (rows t)\<rparr>)
      else (Throws, t))"
proof (cases "creation_count l < 2147483647")
  case True
  let ?l' = "l\<lparr>creation_count := creation_count l + 1, updated_at := now\<rparr>"
  from True have c: "bump_creation now l = Some ?l'"
    by (simp add: bump_creation_def integer_plus_1_def)
  have k: "link_id ?l' = link_id l"
    by simp
  from assms(1,2) have eq: "link_id x = link_id l \<longleftrightarrow> x = l" if "x \<in> set (rows t)" for x
    using that by (auto simp: distinct_map dest: inj_onD)
  with c have "\<forall>x\<in>set (rows t). (if link_id x = link_id l then bump_creation now x else Some x) =
      Some (if x = l then ?l' else x)"
    by auto
  from those_map_Some [OF this] updated_rows(2) [OF assms(1,2) k] True show ?thesis
    by (simp add: update_creation_count_def deliver_single)
next
  case False
  then have "bump_creation now l = None"
    by (simp add: bump_creation_def integer_plus_1_def)
  with those_map_None [OF assms(2), of "\<lambda>x. if link_id x = link_id l then bump_creation now x else Some x"]
    False
  show ?thesis
    by (simp add: update_creation_count_def)
qed

lemma update_creation_count_Throws:
  "update_creation_count db t i now = (Throws, t') \<Longrightarrow> t' = t"
  by (auto simp: update_creation_count_def split: option.splits)

lemma update_clicks_Throws: "update_clicks db t code now = (Throws, t') \<Longrightarrow> t' = t"
  by (auto simp: update_clicks_def split: if_splits option.splits)

lemma delete_by_code_Throws: "delete_by_code db t code = (Throws, t') \<Longrightarrow> t' = t"
  by (auto simp: delete_by_code_def split: if_splits)

subsection \<open>The loop\<close>

lemma unique_code_loop_free:
  assumes "unique_code_loop db rnd t code pos = Some (Returns c, p)"
  shows "select_by_code db t c = Returns []"
proof -
  have "\<forall>c p. r = (Returns c, p) \<longrightarrow> select_by_code db t c = Returns []"
    if "unique_code_loop db rnd t code pos = Some r" for r
  proof (rule unique_code_loop.raw_induct
      [where P = "\<lambda>db rnd t code pos r. \<forall>c p. r = (Returns c, p) \<longrightarrow> select_by_code db t c = Returns []",
        OF _ that])
    fix f db rnd t code pos r
    assume IH: "\<And>db rnd t code pos r. f db rnd t code pos = Some r \<Longrightarrow>
        \<forall>c p. r = (Returns c, p) \<longrightarrow> select_by_code db t c = Returns []"
      and step: "(case select_by_code db t code of
          Throws \<Rightarrow> Some (Throws, pos)
        | Returns codeCheck \<Rightarrow>
            if codeCheck = [] then Some (Returns code, pos)
            else f db rnd t (fst (generateShortCode rnd pos)) (snd (generateShortCode rnd pos))) = Some r"
    show "\<forall>c p. r = (Returns c, p) \<longrightarrow> select_by_code db t c = Returns []"
    proof (cases "select_by_code db t code")
      case Throws
      with step show ?thesis by auto
    next
      case (Returns codeCheck)
      show ?thesis
      proof (cases "codeCheck = []")
        case True
        with step Returns show ?thesis by auto
      next
        case False
        with step Returns IH show ?thesis by simp
      qed
    qed
  qed
  with assms show ?thesis
    by blast
qed

lemma unique_code_loop_valid:
  assumes "unique_code_loop db rnd t code pos = Some r"
    and "\<forall>i. rnd i 3 < 3 \<and> rnd i 62 < 62" and "isValidCode code"
  shows "\<exists>c p. r = (Returns c, p) \<and> isValidCode c"
proof -
  have "(\<forall>i. rnd i 3 < 3 \<and> rnd i 62 < 62) \<longrightarrow> isValidCode code \<longrightarrow>
      (\<exists>c p. r = (Returns c, p) \<and> isValidCode c)"
  proof (rule unique_code_loop.raw_induct
      [where P = "\<lambda>db rnd t code pos r. (\<forall>i. rnd i 3 < 3 \<and> rnd i 62 < 62) \<longrightarrow> isValidCode code \<longrightarrow>
          (\<exists>c p. r = (Returns c, p) \<and> isValidCode c)", OF _ assms(1)])
    fix f db rnd t code pos r
    assume IH: "\<And>db rnd t code pos r. f db rnd t code pos = Some r \<Longrightarrow>
        (\<forall>i. rnd i 3 < 3 \<and> rnd i 62 < 62) \<longrightarrow> isValidCode code \<longrightarrow>
          (\<exists>c p. r = (Returns c, p) \<and> isValidCode c)"
      and step: "(case select_by_code db t code of
          Throws \<Rightarrow> Some (Throws, pos)
        | Returns codeCheck \<Rightarrow>
            if codeCheck = [] then Some (Returns code, pos)
            else f db rnd t (fst (generateShortCode rnd pos)) (snd (generateShortCode rnd pos))) = Some r"
    show "(\<forall>i. rnd i 3 < 3 \<and> rnd i 62 < 62) \<longrightarrow> isValidCode code \<longrightarrow>
        (\<exists>c p. r = (Returns c, p) \<and> isValidCode c)"
    proof (intro impI)
      assume sane: "\<forall>i. rnd i 3 < 3 \<and> rnd i 62 < 62" and v: "isValidCode code"
      from isValidCode_stored(1) [OF v] obtain codeCheck
        where s: "select_by_code db t code = Returns codeCheck"
        by (simp add: select_by_code_def)
      show "\<exists>c p. r = (Returns c, p) \<and> isValidCode c"
      proof (cases "codeCheck = []")
        case True
        with step s v show ?thesis by auto
      next
        case False
        with step s
        have "f db rnd t (fst (generateShortCode rnd pos)) (snd (generateShortCode rnd pos)) = Some r"
          by simp
        from IH [OF this] sane show ?thesis
          by (simp add: generateShortCode_valid)
      qed
    qed
  qed
  with assms(2,3) show ?thesis
    by blast
qed

subsection \<open>POST /api/links\<close>

lemma post_links_invalid_url:
  "req_url = [] \<or> \<not> isValidUrl new_URL req_url \<Longrightarrow>
     post_links new_URL db rnd pool now pos req_url req_code = Some (Inl Invalid_URL, pool, pos)"
  by (auto simp: post_links_def)

lemma post_links_pool_None:
  "post_links new_URL db rnd None now pos req_url req_code =
     Some (Inl (if req_url = [] \<or> \<not> isValidUrl new_URL req_url then Invalid_URL else Db_Unavailable),
           None, pos)"
  by (simp add: post_links_def)

lemma post_links_custom:
  assumes "req_url \<noteq> []" and "isValidUrl new_URL req_url" and "given_code req_code = Some c"
  shows "post_links new_URL db rnd (Some t) now pos req_url req_code =
     (if \<not> isValidCode c then Some (Inl Invalid_Code, Some t, pos)
      else if c \<in> set (map short_code (rows t)) then Some (Inl Code_Exists, Some t, pos)
      else if \<not> pg_text req_url \<or> 2147483647 < next_id t then Some (Inl Internal_Error, Some t, pos)
      else if \<not> index_fits db req_url
      then Some (Inl Internal_Error, Some (t\<lparr>next_id := Suc (next_id t)\<rparr>), pos)
      else Some (Inr (Created (new_link (next_id t) c req_url now)),
                 Some \<lparr>rows = rows t @ [new_link (next_id t) c req_url now], next_id = Suc (next_id t)\<rparr>,
                 pos))"
proof (cases "isValidCode c")
  case False
  with assms show ?thesis
    by (simp add: post_links_def)
next
  case v: True
  note st = isValidCode_stored [OF v]
  show ?thesis
  proof (cases "c \<in> set (map short_code (rows t))")
    case True
    from select_by_code_present [OF st(1) True, of db] obtain l ls
      where "select_by_code db t c = Returns (l # ls)"
      by blast
    with assms v True show ?thesis
      by (simp add: post_links_def)
  next
    case False
    from select_by_code_absent [OF st(1) False, of db] assms v False
      insert_link_stored [OF st(1,2) False, of db req_url now]
    show ?thesis
      by (simp add: post_links_def)
  qed
qed

lemma post_links_url_refused:
  assumes "req_url \<noteq> []" and "isValidUrl new_URL req_url" and "given_code req_code = None"
    and "\<not> pg_text req_url"
  shows "post_links new_URL db rnd (Some t) now pos req_url req_code =
     Some (Inl Internal_Error, Some t, pos)"
  using assms by (simp add: post_links_def select_by_url_def)

lemma post_links_existing_url:
  assumes "req_url \<noteq> []" and "isValidUrl new_URL req_url" and "given_code req_code = None"
    and "select_by_url db t req_url = Returns (e # es)" and "distinct (map link_id (rows t))"
  shows "post_links new_URL db rnd (Some t) now pos req_url req_code =
     (if creation_count e < 2147483647
      then Some (Inr (Incremented (Some (e\<lparr>creation_count := creation_count e + 1, updated_at := now\<rparr>))),
                 Some (t\<lparr>rows := map (\<lambda>r. if r = e
                                  then e\<lparr>creation_count := creation_count e + 1, updated_at := now\<rparr>
                                  else r) (rows t)\<rparr>),
                 pos)
      else Some (Inl Internal_Error, Some t, pos))"
  using assms update_creation_count_present [OF assms(5) select_by_url_first(1) [OF assms(4)], of db now]
  by (simp add: post_links_def)

lemma post_links_new_url:
  assumes "req_url \<noteq> []" and "isValidUrl new_URL req_url" and "given_code req_code = None"
    and "select_by_url db t req_url = Returns []"
  shows "post_links new_URL db rnd (Some t) now pos req_url req_code =
     (case unique_code_loop db rnd t (fst (generateShortCode rnd pos)) (snd (generateShortCode rnd pos)) of
        None \<Rightarrow> None
      | Some (Throws, pos') \<Rightarrow> Some (Inl Internal_Error, Some t, pos')
      | Some (Returns code, pos') \<Rightarrow>
          (case insert_link db t code req_url now of
             (Throws, t') \<Rightarrow> Some (Inl Internal_Error, Some t', pos')
           | (Returns l, t') \<Rightarrow> Some (Inr (Created l), Some t', pos')))"
  using assms by (simp add: post_links_def)

lemma insert_link_Throws:
  "insert_link db t c url now = (Throws, t') \<Longrightarrow> t' = t \<or> t' = t\<lparr>next_id := Suc (next_id t)\<rparr>"
  by (auto simp: insert_link_def split: if_splits option.splits)

text \<open>What an answer of the route says of the table.\<close>

lemma post_links_answer:
  assumes "post_links new_URL db rnd (Some t) now pos req_url req_code = Some (r, p, q)"
  shows "(\<exists>e t'. r = Inl e \<and> p = Some t' \<and> (t' = t \<or> t' = t\<lparr>next_id := Suc (next_id t)\<rparr>)) \<or>
         (\<exists>c l t'. r = Inr (Created l) \<and> p = Some t' \<and>
            insert_link db t c req_url now = (Returns l, t') \<and>
            (isValidCode c \<or>
             (\<exists>p0. unique_code_loop db rnd t (fst (generateShortCode rnd pos)) p0 = Some (Returns c, q)))) \<or>
         (\<exists>u i us t'. r = Inr (Incremented u) \<and> p = Some t' \<and>
            update_creation_count db t i now = (Returns us, t'))"
  using assms unfolding post_links_def
  by (auto split: if_splits option.splits outcome.splits list.splits prod.splits
      dest: insert_link_Throws update_creation_count_Throws)

lemma post_links_error:
  assumes "post_links new_URL db rnd (Some t) now pos req_url req_code = Some (Inl e, p, q)"
  shows "p = Some t \<or> p = Some (t\<lparr>next_id := Suc (next_id t)\<rparr>)"
  using post_links_answer [OF assms] by auto

lemma post_links_Created:
  assumes "post_links new_URL db rnd (Some t) now pos req_url req_code = Some (Inr (Created l), p, q)"
  shows "\<exists>c t'. p = Some t' \<and> insert_link db t c req_url now = (Returns l, t') \<and>
           (isValidCode c \<or>
            (\<exists>p0. unique_code_loop db rnd t (fst (generateShortCode rnd pos)) p0 = Some (Returns c, q)))"
  using post_links_answer [OF assms] by auto

lemma post_links_Incremented:
  assumes "post_links new_URL db rnd (Some t) now pos req_url req_code = Some (Inr (Incremented u), p, q)"
  shows "\<exists>i us t'. p = Some t' \<and> update_creation_count db t i now = (Returns us, t')"
  using post_links_answer [OF assms] by auto

lemma post_links_wf:
  assumes "wf_table t" and "post_links new_URL db rnd (Some t) now pos req_url req_code = Some (r, p, q)"
  shows "\<exists>t'. p = Some t' \<and> wf_table t'"
proof (cases r)
  case (Inl e)
  with post_links_error [of new_URL db rnd t now pos req_url req_code e p q] assms(2)
  show ?thesis
    using assms(1) wf_table_next_id [OF assms(1)] by auto
next
  case (Inr s)
  show ?thesis
  proof (cases s)
    case (Created l)
    with Inr post_links_Created [of new_URL db rnd t now pos req_url req_code l p q] assms(2)
    obtain c t' where "p = Some t'" and "insert_link db t c req_url now = (Returns l, t')"
      by blast
    with wf_table_insert [OF assms(1), of db c req_url now] show ?thesis
      by simp
  next
    case (Incremented u)
    with Inr post_links_Incremented [of new_URL db rnd t now pos req_url req_code u p q] assms(2)
    obtain i us t' where "p = Some t'" and "update_creation_count db t i now = (Returns us, t')"
      by blast
    with wf_table_bump [OF assms(1), of db i now] show ?thesis
      by simp
  qed
qed

lemma post_links_error_rows:
  assumes "post_links new_URL db rnd pool now pos req_url req_code = Some (Inl e, p, q)"
  shows "map_option rows p = map_option rows pool"
proof (cases pool)
  case None
  with assms show ?thesis by (simp add: post_links_pool_None)
next
  case (Some t)
  with post_links_error [of new_URL db rnd t now pos req_url req_code e p q] assms
  show ?thesis by auto
qed

subsection \<open>The routes on a code\<close>

lemma get_link_absent:
  "code \<notin> set (map short_code (rows t)) \<Longrightarrow>
     get_link db (Some t) code = Inl (if pg_text code then Not_Found else Internal_Error)"
  by (simp add: get_link_def select_by_code_def filter_absent deliver_Nil)

lemma delete_link_absent:
  "code \<notin> set (map short_code (rows t)) \<Longrightarrow>
     delete_link db (Some t) code = (Inl (if pg_text code then Not_Found else Internal_Error), Some t)"
  by (simp add: delete_link_def delete_by_code_absent)

lemma get_code_absent:
  "code \<notin> set (map short_code (rows t)) \<Longrightarrow>
     get_code db (Some t) now code = (Inl (if pg_text code then Not_Found else Internal_Error), Some t)"
  by (simp add: get_code_def update_clicks_absent)

lemma delete_link_Some:
  "delete_link db (Some t) code = (r, p) \<Longrightarrow> p = Some (snd (delete_by_code db t code))"
  by (auto simp: delete_link_def split: prod.splits list.splits outcome.splits)

lemma get_code_Some:
  "get_code db (Some t) now code = (r, p) \<Longrightarrow> p = Some (snd (update_clicks db t code now))"
  by (auto simp: get_code_def split: prod.splits list.splits outcome.splits)

lemma delete_link_error_unchanged:
  assumes "delete_link db pool code = (Inl e, p)"
  shows "p = pool"
proof (cases pool)
  case None
  with assms show ?thesis by (simp add: delete_link_def)
next
  case (Some t)
  show ?thesis
  proof (cases "code \<in> set (map short_code (rows t)) \<and> pg_text code")
    case False
    then have "delete_by_code db t code = (Throws, t) \<or> delete_by_code db t code = (Returns [], t)"
      using delete_by_code_absent [of code t db] by (auto simp: delete_by_code_def)
    with assms Some show ?thesis
      by (auto simp: delete_link_def)
  next
    case True
    then have "filter (\<lambda>l. short_code l = code) (rows t) \<noteq> []"
      by (auto simp: filter_empty_conv)
    then have "deliver db (filter (\<lambda>l. short_code l = code) (rows t)) \<noteq> []"
      by (simp add: deliver_eq_Nil)
    with assms Some True show ?thesis
      by (auto simp: delete_link_def delete_by_code_def split: list.splits)
  qed
qed

lemma get_code_error_unchanged:
  assumes "get_code db pool now code = (Inl e, p)"
  shows "p = pool"
proof (cases pool)
  case None
  with assms show ?thesis by (simp add: get_code_def)
next
  case (Some t)
  obtain r t' where u: "update_clicks db t code now = (r, t')"
    by (cases "update_clicks db t code now")
  show ?thesis
  proof (cases r)
    case Throws
    with u update_clicks_Throws [of db t code now t'] assms Some show ?thesis
      by (simp add: get_code_def)
  next
    case (Returns ls)
    show ?thesis
    proof (cases ls)
      case (Cons a as)
      with u Returns assms Some show ?thesis
        by (simp add: get_code_def)
    next
      case Nil
      with u Returns obtain rs
        where th: "those (map (\<lambda>l. if short_code l = code then click now l else Some l) (rows t)) = Some rs"
          and "deliver db (filter (\<lambda>l. short_code l = code) rs) = []"
        by (auto simp: update_clicks_def split: if_splits option.splits)
      then have "filter (\<lambda>l. short_code l = code) rs = []"
        by (simp add: deliver_eq_Nil)
      then have "code \<notin> set (map short_code rs)"
        by (auto simp: filter_empty_conv)
      moreover from those_map_key [OF th, of short_code] click_keeps
      have "map short_code rs = map short_code (rows t)"
        by blast
      ultimately have "code \<notin> set (map short_code (rows t))"
        by simp
      from get_code_absent [OF this, of db now] assms Some show ?thesis
        by simp
    qed
  qed
qed

lemma no_Invalid_Code:
  "get_link db pool code \<noteq> Inl Invalid_Code"
  "fst (delete_link db pool code) \<noteq> Inl Invalid_Code"
  "fst (get_code db pool now code) \<noteq> Inl Invalid_Code"
  by (auto simp: get_link_def delete_link_def get_code_def
      split: option.splits list.splits prod.splits outcome.splits)

subsection \<open>Reachable tables\<close>

lemma codes_valid_next_id: "codes_valid (t\<lparr>next_id := n\<rparr>) = codes_valid t"
  by (simp add: codes_valid_def)

lemma codes_valid_updated:
  assumes "codes_valid t" and "those (map f (rows t)) = Some ls"
    and "\<forall>x y. f x = Some y \<longrightarrow>
      link_id y = link_id x \<and> short_code y = short_code x \<and> target_url y = target_url x"
  shows "codes_valid (t\<lparr>rows := ls\<rparr>)"
proof -
  have "list_all (\<lambda>l. isValidCode (short_code l)) ls"
    using assms(1,3) by (intro those_map_all [OF assms(2)]) (auto simp: codes_valid_def)
  then show ?thesis
    by (simp add: codes_valid_def)
qed

lemma codes_valid_bump:
  assumes "codes_valid t"
  shows "codes_valid (snd (update_creation_count db t i now))"
proof (cases "those (map (\<lambda>l. if link_id l = i then bump_creation now l else Some l) (rows t))")
  case None
  with assms show ?thesis
    by (simp add: update_creation_count_def)
next
  case (Some ls)
  have "\<forall>x y. (if link_id x = i then bump_creation now x else Some x) = Some y \<longrightarrow>
      link_id y = link_id x \<and> short_code y = short_code x \<and> target_url y = target_url x"
    using bump_creation_keeps by blast
  from codes_valid_updated [OF assms Some this] Some show ?thesis
    by (simp add: update_creation_count_def)
qed

lemma codes_valid_clicks:
  assumes "codes_valid t"
  shows "codes_valid (snd (update_clicks db t code now))"
proof (cases "those (map (\<lambda>l. if short_code l = code then click now l else Some l) (rows t))")
  case None
  with assms show ?thesis
    by (simp add: update_clicks_def)
next
  case (Some ls)
  have "\<forall>x y. (if short_code x = code then click now x else Some x) = Some y \<longrightarrow>
      link_id y = link_id x \<and> short_code y = short_code x \<and> target_url y = target_url x"
    using click_keeps by blast
  from codes_valid_updated [OF assms Some this] Some assms show ?thesis
    by (simp add: update_clicks_def)
qed

lemma codes_valid_delete: "codes_valid t \<Longrightarrow> codes_valid (snd (delete_by_code db t code))"
  by (auto simp: codes_valid_def delete_by_code_def list_all_iff)

lemma codes_valid_insert:
  assumes "codes_valid t" and "isValidCode c" and "insert_link db t c url now = (Returns l, t')"
  shows "codes_valid t'"
proof -
  from insert_link_Returns [OF assms(3)] isValidCode_stored(2) [OF assms(2)]
  have "t' = \<lparr>rows = rows t @ [new_link (next_id t) c url now], next_id = Suc (next_id t)\<rparr>"
    by auto
  with assms(1,2) show ?thesis
    by (simp add: codes_valid_def new_link_def)
qed

lemma post_links_codes_valid:
  assumes "codes_valid t" and "\<forall>i. rnd i 3 < 3 \<and> rnd i 62 < 62"
    and "post_links new_URL db rnd (Some t) now pos req_url req_code = Some (r, Some t', q)"
  shows "codes_valid t'"
proof (cases r)
  case (Inl e)
  with post_links_error [of new_URL db rnd t now pos req_url req_code e "Some t'" q] assms(3)
  show ?thesis
    using assms(1) by (auto simp: codes_valid_next_id)
next
  case (Inr s)
  show ?thesis
  proof (cases s)
    case (Created l)
    with Inr post_links_Created [of new_URL db rnd t now pos req_url req_code l "Some t'" q] assms(3)
    obtain c where ins: "insert_link db t c req_url now = (Returns l, t')"
      and c: "isValidCode c \<or>
        (\<exists>p0. unique_code_loop db rnd t (fst (generateShortCode rnd pos)) p0 = Some (Returns c, q))"
      by auto
    from c have "isValidCode c"
    proof
      assume "isValidCode c"
      then show ?thesis .
    next
      assume "\<exists>p0. unique_code_loop db rnd t (fst (generateShortCode rnd pos)) p0 = Some (Returns c, q)"
      then obtain p0
        where "unique_code_loop db rnd t (fst (generateShortCode rnd pos)) p0 = Some (Returns c, q)"
        by blast
      from unique_code_loop_valid [OF this assms(2) generateShortCode_valid [OF assms(2)]]
      show ?thesis by simp
    qed
    from codes_valid_insert [OF assms(1) this ins] show ?thesis .
  next
    case (Incremented u)
    with Inr post_links_Incremented [of new_URL db rnd t now pos req_url req_code u "Some t'" q] assms(3)
    obtain i us where "update_creation_count db t i now = (Returns us, t')"
      by auto
    with codes_valid_bump [OF assms(1), of db i now] show ?thesis
      by simp
  qed
qed

lemma reachable_invariant: "reachable t \<Longrightarrow> wf_table t \<and> codes_valid t"
proof (induction rule: reachable.induct)
  case initial
  show ?case
    by (simp add: wf_table_def codes_valid_def empty_table_def)
next
  case (post t rnd new_URL db now pos url code r t' pos')
  from post_links_wf [OF _ post.hyps(3)] post.IH have "wf_table t'"
    by simp
  moreover from post_links_codes_valid [OF _ post.hyps(2,3)] post.IH have "codes_valid t'"
    by simp
  ultimately show ?case by simp
next
  case (delete t db code r t')
  from delete_link_Some [OF delete.hyps(2)] delete.IH show ?case
    by (simp add: wf_table_delete codes_valid_delete)
next
  case (redirect t db now code r t')
  from get_code_Some [OF redirect.hyps(2)] redirect.IH show ?case
    by (simp add: wf_table_clicks codes_valid_clicks)
qed

subsection \<open>The candidates of the loop\<close>

lemma candidate_valid:
  "\<forall>i. rnd i 3 < 3 \<and> rnd i 62 < 62 \<Longrightarrow> isValidCode (fst (candidate rnd pos k))"
  by (cases k) (simp_all add: generateShortCode_valid)

lemma unique_code_loop_candidate:
  assumes "\<forall>i. rnd i 3 < 3 \<and> rnd i 62 < 62"
    and "\<forall>j<k. fst (candidate rnd pos (i + j)) \<in> set (map short_code (rows t))"
    and "fst (candidate rnd pos (i + k)) \<notin> set (map short_code (rows t))"
  shows "unique_code_loop db rnd t (fst (candidate rnd pos i)) (snd (candidate rnd pos i)) =
           Some (Returns (fst (candidate rnd pos (i + k))), snd (candidate rnd pos (i + k)))"
  using assms(2,3)
proof (induction k arbitrary: i)
  case 0
  from isValidCode_stored(1) [OF candidate_valid [OF assms(1)]] "0.prems"(2)
  have "select_by_code db t (fst (candidate rnd pos i)) = Returns []"
    by (simp add: select_by_code_absent)
  then show ?case
    by (subst unique_code_loop.simps) simp
next
  case (Suc k)
  from Suc.prems(1) have "fst (candidate rnd pos i) \<in> set (map short_code (rows t))"
    by (metis add.right_neutral zero_less_Suc)
  from select_by_code_present [OF isValidCode_stored(1) [OF candidate_valid [OF assms(1)]] this, of db]
  obtain l ls where taken: "select_by_code db t (fst (candidate rnd pos i)) = Returns (l # ls)"
    by blast
  have "\<forall>j<k. fst (candidate rnd pos (Suc i + j)) \<in> set (map short_code (rows t))"
  proof (intro allI impI)
    fix j assume "j < k"
    then have "Suc j < Suc k" by simp
    with Suc.prems(1) have "fst (candidate rnd pos (i + Suc j)) \<in> set (map short_code (rows t))"
      by blast
    then show "fst (candidate rnd pos (Suc i + j)) \<in> set (map short_code (rows t))"
      by simp
  qed
  moreover from Suc.prems(2) have "fst (candidate rnd pos (Suc i + k)) \<notin> set (map short_code (rows t))"
    by simp
  ultimately have "unique_code_loop db rnd t (fst (candidate rnd pos (Suc i)))
      (snd (candidate rnd pos (Suc i))) =
      Some (Returns (fst (candidate rnd pos (Suc i + k))), snd (candidate rnd pos (Suc i + k)))"
    by (rule Suc.IH)
  with taken show ?case
    by (subst unique_code_loop.simps) simp
qed

lemma unique_code_loop_all_taken:
  assumes "unique_code_loop db rnd t code q = Some r"
  shows "\<not> ((\<forall>i. rnd i 3 < 3 \<and> rnd i 62 < 62) \<and>
            (\<exists>pos i. (code, q) = candidate rnd pos i \<and>
               (\<forall>j. fst (candidate rnd pos j) \<in> set (map short_code (rows t)))))"
proof (rule unique_code_loop.raw_induct
    [where P = "\<lambda>db rnd t code q r. \<not> ((\<forall>i. rnd i 3 < 3 \<and> rnd i 62 < 62) \<and>
            (\<exists>pos i. (code, q) = candidate rnd pos i \<and>
               (\<forall>j. fst (candidate rnd pos j) \<in> set (map short_code (rows t)))))", OF _ assms])
  fix f db rnd t code q r
  assume IH: "\<And>db rnd t code q r. f db rnd t code q = Some r \<Longrightarrow>
      \<not> ((\<forall>i. rnd i 3 < 3 \<and> rnd i 62 < 62) \<and>
            (\<exists>pos i. (code, q) = candidate rnd pos i \<and>
               (\<forall>j. fst (candidate rnd pos j) \<in> set (map short_code (rows t)))))"
    and step: "(case select_by_code db t code of
          Throws \<Rightarrow> Some (Throws, q)
        | Returns codeCheck \<Rightarrow>
            if codeCheck = [] then Some (Returns code, q)
            else f db rnd t (fst (generateShortCode rnd q)) (snd (generateShortCode rnd q))) = Some r"
  show "\<not> ((\<forall>i. rnd i 3 < 3 \<and> rnd i 62 < 62) \<and>
            (\<exists>pos i. (code, q) = candidate rnd pos i \<and>
               (\<forall>j. fst (candidate rnd pos j) \<in> set (map short_code (rows t)))))"
  proof
    assume "(\<forall>i. rnd i 3 < 3 \<and> rnd i 62 < 62) \<and>
            (\<exists>pos i. (code, q) = candidate rnd pos i \<and>
               (\<forall>j. fst (candidate rnd pos j) \<in> set (map short_code (rows t))))"
    then obtain pos i where sane: "\<forall>i. rnd i 3 < 3 \<and> rnd i 62 < 62"
      and c: "(code, q) = candidate rnd pos i"
      and all: "\<forall>j. fst (candidate rnd pos j) \<in> set (map short_code (rows t))"
      by blast
    from c have code: "code = fst (candidate rnd pos i)" and q: "q = snd (candidate rnd pos i)"
      by (metis fst_conv, metis snd_conv)
    from all code have "code \<in> set (map short_code (rows t))"
      by simp
    moreover from code have "pg_text code"
      using isValidCode_stored(1) [OF candidate_valid [OF sane]] by simp
    ultimately obtain l ls where "select_by_code db t code = Returns (l # ls)"
      using select_by_code_present by blast
    with step have s: "f db rnd t (fst (generateShortCode rnd q)) (snd (generateShortCode rnd q)) = Some r"
      by simp
    have "(fst (generateShortCode rnd q), snd (generateShortCode rnd q)) = candidate rnd pos (Suc i)"
      using q by simp
    with IH [OF s] sane all show False
      by blast
  qed
qed

lemma unique_code_loop_diverges:
  assumes "\<forall>i. rnd i 3 < 3 \<and> rnd i 62 < 62"
    and "\<forall>j. fst (candidate rnd pos j) \<in> set (map short_code (rows t))"
  shows "unique_code_loop db rnd t (fst (generateShortCode rnd pos)) (snd (generateShortCode rnd pos)) = None"
proof (cases "unique_code_loop db rnd t (fst (generateShortCode rnd pos)) (snd (generateShortCode rnd pos))")
  case None
  then show ?thesis .
next
  case (Some r)
  have "(fst (generateShortCode rnd pos), snd (generateShortCode rnd pos)) = candidate rnd pos 0"
    by simp
  with unique_code_loop_all_taken [OF Some] assms show ?thesis
    by blast
qed

text \<open>The random source whose every index is 0.\<close>

lemma charAt_chars_0: "charAt chars 0 = ''A''"
  by (simp add: charAt_def chars_def)

lemma code_loop_zero: "code_loop (\<lambda>i n. 0) pos k code = code @ replicate k CHR ''A''"
  by (induction k arbitrary: pos code) (simp_all add: charAt_chars_0 replicate_append_same)

lemma generateShortCode_zero: "generateShortCode (\<lambda>i n. 0) pos = (''AAAAAA'', pos + 7)"
  by (simp add: generateShortCode_def code_loop_zero eval_nat_numeral)

text \<open>
  The random source whose indices are 0 for the first \<open>m\<close> calls of \<^verbatim>\<open>Math.random()\<close> and 1
  from then on.
\<close>

lemma charAt_chars_1: "charAt chars (Suc 0) = ''B''"
  by (simp add: charAt_def chars_def)

lemma code_loop_zero_until:
  "pos + k \<le> m \<Longrightarrow>
     code_loop (\<lambda>i n. if i < m then 0 else 1) pos k code = code @ replicate k CHR ''A''"
  by (induction k arbitrary: pos code) (simp_all add: charAt_chars_0 replicate_append_same)

lemma code_loop_one_from:
  "m \<le> pos \<Longrightarrow>
     code_loop (\<lambda>i n. if i < m then 0 else 1) pos k code = code @ replicate k CHR ''B''"
  by (induction k arbitrary: pos code) (simp_all add: charAt_chars_1 replicate_append_same)

lemma generateShortCode_zero_until:
  assumes "pos + 7 \<le> m"
  shows "generateShortCode (\<lambda>i n. if i < m then 0 else 1) pos = (''AAAAAA'', pos + 7)"
proof -
  have "code_loop (\<lambda>i n. if i < m then 0 else 1) (Suc pos) 6 [] = [] @ replicate 6 CHR ''A''"
    using assms by (intro code_loop_zero_until) simp
  moreover have "replicate 6 CHR ''A'' = ''AAAAAA''"
    by (simp add: eval_nat_numeral)
  ultimately show ?thesis
    using assms by (simp add: generateShortCode_def)
qed

lemma generateShortCode_one_from:
  assumes "m \<le> pos"
  shows "generateShortCode (\<lambda>i n. if i < m then 0 else 1) pos = (''BBBBBBB'', pos + 8)"
proof -
  have "code_loop (\<lambda>i n. if i < m then 0 else 1) (Suc pos) 7 [] = [] @ replicate 7 CHR ''B''"
    using assms by (intro code_loop_one_from) simp
  moreover have "replicate 7 CHR ''B'' = ''BBBBBBB''"
    by (simp add: eval_nat_numeral)
  ultimately show ?thesis
    using assms by (simp add: generateShortCode_def)
qed

lemma candidate_zero_until:
  "7 * (j + 1) \<le> m \<Longrightarrow>
     candidate (\<lambda>i n. if i < m then 0 else 1) 0 j = (''AAAAAA'', 7 * (j + 1))"
proof (induction j)
  case 0
  then show ?case by (simp add: generateShortCode_zero_until)
next
  case (Suc j)
  then show ?case by (simp add: generateShortCode_zero_until)
qed

lemma candidate_first_one:
  "candidate (\<lambda>i n. if i < 7 * (j + 1) then 0 else 1) 0 (Suc j) = (''BBBBBBB'', 7 * (j + 1) + 8)"
  using candidate_zero_until [of j "7 * (j + 1)"]
  by (simp add: generateShortCode_one_from)

section \<open>The claims\<close>

text \<open>
  Claim C1, as the code has it. For a table that the schema allows and a row \<open>l\<close> of it
  with the code asked for, the redirect \<open>get_code\<close> (recordClick in the specification) is
  one \<^verbatim>\<open>UPDATE\<close>, a single atomic step of the database. When \<open>total_clicks\<close> of the row is
  below 2147483647, it adds 1 to it, sets \<open>last_clicked\<close> of the row to the current time and
  answers with the row after the update, whose \<open>target_url\<close> is the one of \<open>l\<close>; every
  other field of the row, \<open>updated_at\<close> among them, every other row and the sequence stay
  as they were. At 2147483647 the statement throws: the answer is \<open>Internal_Error\<close> and
  the table is as before.
\<close>

theorem get_code_existing:
  assumes "wf_table t" and "l \<in> set (rows t)" and "short_code l = code"
  shows "get_code db (Some t) now code =
           (if total_clicks l < 2147483647
            then (Inr (l\<lparr>total_clicks := total_clicks l + 1, last_clicked := Some now\<rparr>),
                  Some (t\<lparr>rows := map (\<lambda>r. if r = l
                                   then l\<lparr>total_clicks := total_clicks l + 1, last_clicked := Some now\<rparr>
                                   else r) (rows t)\<rparr>))
            else (Inl Internal_Error, Some t))"
proof -
  have d: "distinct (map short_code (rows t))" and p: "pg_text (short_code l)"
    using assms(1,2) by (auto simp: wf_table_def list_all_iff)
  from update_clicks_present [OF d assms(2) p, of db now] assms(3) show ?thesis
    by (simp add: get_code_def)
qed

text \<open>
  The example of the specification: two redirects in sequence add 2, and \<open>last_clicked\<close> is
  the time of the second.
\<close>

theorem get_code_existing_witness:
  "get_code example_db
     (Some \<lparr>rows = [new_link 1 ''abcdef'' ''https://google.com'' 10], next_id = 2\<rparr>) 20 ''abcdef'' =
     (Inr \<lparr>link_id = 1, short_code = ''abcdef'', target_url = ''https://google.com'', total_clicks = 1,
           creation_count = 1, last_clicked = Some 20, created_at = 10, updated_at = 10\<rparr>,
      Some \<lparr>rows = [\<lparr>link_id = 1, short_code = ''abcdef'', target_url = ''https://google.com'',
                     total_clicks = 1, creation_count = 1, last_clicked = Some 20, created_at = 10,
                     updated_at = 10\<rparr>], next_id = 2\<rparr>) \<and>
   get_code example_db
     (Some \<lparr>rows = [\<lparr>link_id = 1, short_code = ''abcdef'', target_url = ''https://google.com'',
                     total_clicks = 1, creation_count = 1, last_clicked = Some 20, created_at = 10,
                     updated_at = 10\<rparr>], next_id = 2\<rparr>) 30 ''abcdef'' =
     (Inr \<lparr>link_id = 1, short_code = ''abcdef'', target_url = ''https://google.com'', total_clicks = 2,
           creation_count = 1, last_clicked = Some 30, created_at = 10, updated_at = 10\<rparr>,
      Some \<lparr>rows = [\<lparr>link_id = 1, short_code = ''abcdef'', target_url = ''https://google.com'',
                     total_clicks = 2, creation_count = 1, last_clicked = Some 30, created_at = 10,
                     updated_at = 10\<rparr>], next_id = 2\<rparr>)"
proof -
  let ?l0 = "new_link 1 ''abcdef'' ''https://google.com'' 10"
  let ?l1 = "\<lparr>link_id = 1, short_code = ''abcdef'', target_url = ''https://google.com'',
              total_clicks = 1, creation_count = 1, last_clicked = Some 20, created_at = 10,
              updated_at = 10\<rparr>"
  have w0: "wf_table \<lparr>rows = [?l0], next_id = 2\<rparr>"
    by (simp add: wf_table_def new_link_def pg_text_def)
  have w1: "wf_table \<lparr>rows = [?l1], next_id = 2\<rparr>"
    by (simp add: wf_table_def pg_text_def)
  have c0: "short_code ?l0 = ''abcdef''"
    by (simp add: new_link_def)
  show ?thesis
    using get_code_existing [OF w0 _ c0, of example_db 20]
      get_code_existing [OF w1, of ?l1 "''abcdef''" example_db 30]
    by (simp add: new_link_def)
qed

text \<open>
  The statement does not set \<open>updated_at\<close>: a link created at time 10 and followed at
  time 20 still has \<open>updated_at = 10\<close>. And a link with 2147483647 clicks is not
  followed: the answer is \<open>Internal_Error\<close>, with the row as it was.
\<close>

theorem get_code_keeps_updated_at:
  "get_code example_db
     (Some \<lparr>rows = [new_link 1 ''abcdef'' ''https://google.com'' 10], next_id = 2\<rparr>) 20 ''abcdef'' =
     (Inr \<lparr>link_id = 1, short_code = ''abcdef'', target_url = ''https://google.com'', total_clicks = 1,
           creation_count = 1, last_clicked = Some 20, created_at = 10, updated_at = 10\<rparr>,
      Some \<lparr>rows = [\<lparr>link_id = 1, short_code = ''abcdef'', target_url = ''https://google.com'',
                     total_clicks = 1, creation_count = 1, last_clicked = Some 20, created_at = 10,
                     updated_at = 10\<rparr>], next_id = 2\<rparr>) \<and>
   updated_at \<lparr>link_id = 1, short_code = ''abcdef'', target_url = ''https://google.com'',
     total_clicks = 1, creation_count = 1, last_clicked = Some 20, created_at = 10,
     updated_at = (10::nat)\<rparr> \<noteq> 20 \<and>
   get_code example_db
     (Some \<lparr>rows = [\<lparr>link_id = 1, short_code = ''abcdef'', target_url = ''https://google.com'',
                     total_clicks = 2147483647, creation_count = 1, last_clicked = Some 15,
                     created_at = 10, updated_at = 10\<rparr>], next_id = 2\<rparr>) 20 ''abcdef'' =
     (Inl Internal_Error,
      Some \<lparr>rows = [\<lparr>link_id = 1, short_code = ''abcdef'', target_url = ''https://google.com'',
                     total_clicks = 2147483647, creation_count = 1, last_clicked = Some 15,
                     created_at = 10, updated_at = 10\<rparr>], next_id = 2\<rparr>)"
  by (simp add: get_code_def update_clicks_def click_def new_link_def pg_text_def deliver_def
      example_db_def integer_plus_1_def)

text \<open>
  Claim C2 on the code. \<open>isValidUrl\<close> only asks whether the URL constructor throws and never
  looks at the protocol: a non-empty string that the constructor accepts, with whatever
  protocol, is a valid target, and the answer is never \<open>Invalid_URL\<close>. With a well-formed
  unused code the link is stored, unless the database refuses the \<^verbatim>\<open>INSERT\<close> (a NUL
  character in the URL, the sequence of \<^verbatim>\<open>id\<close> exhausted, or no room in the index), to
  which the answer is \<open>Internal_Error\<close>. The instance below is
  \<^verbatim>\<open>ftp://example.com/file\<close>, which the constructor parses with the protocol \<^verbatim>\<open>ftp:\<close>.
\<close>

theorem post_links_any_protocol:
  assumes "new_URL url = Some proto" and "url \<noteq> []" and "isValidCode c"
    and "c \<notin> set (map short_code (rows t))"
  shows "post_links new_URL db rnd (Some t) now pos url (Some c) =
           (if pg_text url \<and> next_id t \<le> 2147483647 \<and> index_fits db url
            then Some (Inr (Created (new_link (next_id t) c url now)),
                       Some \<lparr>rows = rows t @ [new_link (next_id t) c url now], next_id = Suc (next_id t)\<rparr>,
                       pos)
            else Some (Inl Internal_Error,
                       Some (if pg_text url \<and> next_id t \<le> 2147483647
                             then t\<lparr>next_id := Suc (next_id t)\<rparr> else t),
                       pos))"
proof -
  have v: "isValidUrl new_URL url"
    using assms(1) by (simp add: isValidUrl_def)
  have g: "given_code (Some c) = Some c"
    using isValidCode_stored(3) [OF assms(3)] by (simp add: given_code_def)
  show ?thesis
    using post_links_custom [OF assms(2) v g, of db rnd t now pos] assms(3,4)
    by (simp add: not_less)
qed

theorem post_links_any_protocol_witness:
  "post_links (\<lambda>u. if u = ''ftp://example.com/file'' then Some ''ftp:'' else None) example_db
     (\<lambda>i n. 0) (Some empty_table) 5 0 ''ftp://example.com/file'' (Some ''abcdef'') =
     Some (Inr (Created \<lparr>link_id = 1, short_code = ''abcdef'', target_url = ''ftp://example.com/file'',
                         total_clicks = 0, creation_count = 1, last_clicked = None, created_at = 5,
                         updated_at = 5\<rparr>),
           Some \<lparr>rows = [\<lparr>link_id = 1, short_code = ''abcdef'', target_url = ''ftp://example.com/file'',
                          total_clicks = 0, creation_count = 1, last_clicked = None, created_at = 5,
                          updated_at = 5\<rparr>], next_id = 2\<rparr>,
           0)"
proof -
  have v: "isValidCode ''abcdef''"
    by (simp add: isValidCode_iff alphanumeric_def)
  have f: "''abcdef'' \<notin> set (map short_code (rows empty_table))"
    by (simp add: empty_table_def)
  have d: "pg_text ''ftp://example.com/file''" "index_fits example_db ''ftp://example.com/file''"
    "next_id empty_table \<le> 2147483647"
    by (simp_all add: pg_text_def example_db_def empty_table_def)
  show ?thesis
    using post_links_any_protocol [of "\<lambda>u. if u = ''ftp://example.com/file'' then Some ''ftp:'' else None"
        "''ftp://example.com/file''" "''ftp:''" "''abcdef''" empty_table example_db "\<lambda>i n. 0" 5 0] v f d
    by (simp add: new_link_def empty_table_def)
qed

text \<open>
  Claim C3. In every table that requests can produce from the empty one, no two rows have
  the same code. On such a table, \<open>post_links\<close> with a valid URL and a code that a row
  has answers \<open>Code_Exists\<close> and returns the table as it was. Whatever \<open>post_links\<close>,
  \<open>delete_link\<close> or \<open>get_code\<close> makes of such a table again has no two rows with the same
  code. The test looks at the rows that are there: once \<open>delete_link\<close> has removed the row
  of a code, \<open>post_links\<close> with that code stores a new row under it, unless the database
  refuses the \<^verbatim>\<open>INSERT\<close> (a NUL character in the URL, the sequence of \<^verbatim>\<open>id\<close> exhausted, or
  no room in the index), to which the answer is \<open>Internal_Error\<close> and not \<open>Code_Exists\<close>.
\<close>

theorem code_uniqueness:
  assumes "reachable t"
  shows "distinct (map short_code (rows t)) \<and>
         (\<forall>new_URL db rnd now pos url c.
            c \<in> set (map short_code (rows t)) \<longrightarrow> url \<noteq> [] \<longrightarrow> isValidUrl new_URL url \<longrightarrow>
              post_links new_URL db rnd (Some t) now pos url (Some c) =
                Some (Inl Code_Exists, Some t, pos)) \<and>
         (\<forall>new_URL db rnd now pos url sc r t' q.
            post_links new_URL db rnd (Some t) now pos url sc = Some (r, Some t', q) \<longrightarrow>
              distinct (map short_code (rows t'))) \<and>
         (\<forall>db c r t'. delete_link db (Some t) c = (r, Some t') \<longrightarrow> distinct (map short_code (rows t'))) \<and>
         (\<forall>db now c r t'. get_code db (Some t) now c = (r, Some t') \<longrightarrow>
            distinct (map short_code (rows t'))) \<and>
         (\<forall>new_URL db db' rnd now pos url c r t'.
            c \<in> set (map short_code (rows t)) \<longrightarrow> url \<noteq> [] \<longrightarrow> isValidUrl new_URL url \<longrightarrow>
            delete_link db (Some t) c = (r, Some t') \<longrightarrow>
              r = Inr () \<and> c \<notin> set (map short_code (rows t')) \<and>
              post_links new_URL db' rnd (Some t') now pos url (Some c) =
                (if pg_text url \<and> next_id t' \<le> 2147483647 \<and> index_fits db' url
                 then Some (Inr (Created (new_link (next_id t') c url now)),
                            Some \<lparr>rows = rows t' @ [new_link (next_id t') c url now],
                                  next_id = Suc (next_id t')\<rparr>,
                            pos)
                 else Some (Inl Internal_Error,
                            Some (if pg_text url \<and> next_id t' \<le> 2147483647
                                  then t'\<lparr>next_id := Suc (next_id t')\<rparr> else t'),
                            pos)))"
proof -
  from reachable_invariant [OF assms] have wf: "wf_table t" and valid: "codes_valid t"
    by simp_all
  have given: "isValidCode c \<and> given_code (Some c) = Some c"
    if "c \<in> set (map short_code (rows t))" for c
  proof -
    from that valid have v: "isValidCode c"
      by (auto simp: codes_valid_def list_all_iff)
    with isValidCode_stored(3) [OF v] show ?thesis
      by (simp add: given_code_def)
  qed
  have one: "distinct (map short_code (rows t))"
    using wf by (simp add: wf_table_def)
  have conflict: "post_links new_URL db rnd (Some t) now pos url (Some c) =
      Some (Inl Code_Exists, Some t, pos)"
    if "c \<in> set (map short_code (rows t))" and "url \<noteq> []" and "isValidUrl new_URL url"
    for new_URL db rnd now pos url c
    using post_links_custom [OF that(2,3), of "Some c" c db rnd t now pos] given [OF that(1)] that(1)
    by simp
  have post: "distinct (map short_code (rows t'))"
    if "post_links new_URL db rnd (Some t) now pos url sc = Some (r, Some t', q)"
    for new_URL db rnd now pos url sc r t' q
    using post_links_wf [OF wf that] by (simp add: wf_table_def)
  have del: "distinct (map short_code (rows t'))"
    if "delete_link db (Some t) c = (r, Some t')" for db c r t'
    using delete_link_Some [OF that] wf_table_delete [OF wf, of db c] by (simp add: wf_table_def)
  have click: "distinct (map short_code (rows t'))"
    if "get_code db (Some t) now c = (r, Some t')" for db now c r t'
    using get_code_Some [OF that] wf_table_clicks [OF wf, of db c now] by (simp add: wf_table_def)
  have again: "r = Inr () \<and> c \<notin> set (map short_code (rows t')) \<and>
      post_links new_URL db' rnd (Some t') now pos url (Some c) =
        (if pg_text url \<and> next_id t' \<le> 2147483647 \<and> index_fits db' url
         then Some (Inr (Created (new_link (next_id t') c url now)),
                    Some \<lparr>rows = rows t' @ [new_link (next_id t') c url now],
                          next_id = Suc (next_id t')\<rparr>,
                    pos)
         else Some (Inl Internal_Error,
                    Some (if pg_text url \<and> next_id t' \<le> 2147483647
                          then t'\<lparr>next_id := Suc (next_id t')\<rparr> else t'),
                    pos))"
    if c: "c \<in> set (map short_code (rows t))" and u: "url \<noteq> []" "isValidUrl new_URL url"
      and d: "delete_link db (Some t) c = (r, Some t')"
    for new_URL db db' rnd now pos url c r t'
  proof -
    from given [OF c] have v: "isValidCode c" and g: "given_code (Some c) = Some c"
      by simp_all
    from c have "filter (\<lambda>l. short_code l = c) (rows t) \<noteq> []"
      by (auto simp: filter_empty_conv)
    then have "deliver db (filter (\<lambda>l. short_code l = c) (rows t)) \<noteq> []"
      by (simp add: deliver_eq_Nil)
    with d isValidCode_stored(1) [OF v] have r: "r = Inr ()"
      by (auto simp: delete_link_def delete_by_code_def split: list.splits)
    from delete_link_Some [OF d] isValidCode_stored(1) [OF v]
    have gone: "c \<notin> set (map short_code (rows t'))"
      by (auto simp: delete_by_code_def)
    with post_links_custom [OF u g, of db' rnd t' now pos] v r
    show ?thesis by (simp add: not_less)
  qed
  have c2: "\<forall>new_URL db rnd now pos url c.
      c \<in> set (map short_code (rows t)) \<longrightarrow> url \<noteq> [] \<longrightarrow> isValidUrl new_URL url \<longrightarrow>
        post_links new_URL db rnd (Some t) now pos url (Some c) = Some (Inl Code_Exists, Some t, pos)"
    using conflict by (intro allI impI)
  have c3: "\<forall>new_URL db rnd now pos url sc r t' q.
      post_links new_URL db rnd (Some t) now pos url sc = Some (r, Some t', q) \<longrightarrow>
        distinct (map short_code (rows t'))"
    using post by (intro allI impI)
  have c4: "\<forall>db c r t'. delete_link db (Some t) c = (r, Some t') \<longrightarrow>
      distinct (map short_code (rows t'))"
    using del by (intro allI impI)
  have c5: "\<forall>db now c r t'. get_code db (Some t) now c = (r, Some t') \<longrightarrow>
      distinct (map short_code (rows t'))"
    using click by (intro allI impI)
  have c6: "\<forall>new_URL db db' rnd now pos url c r t'.
      c \<in> set (map short_code (rows t)) \<longrightarrow> url \<noteq> [] \<longrightarrow> isValidUrl new_URL url \<longrightarrow>
      delete_link db (Some t) c = (r, Some t') \<longrightarrow>
        r = Inr () \<and> c \<notin> set (map short_code (rows t')) \<and>
        post_links new_URL db' rnd (Some t') now pos url (Some c) =
          (if pg_text url \<and> next_id t' \<le> 2147483647 \<and> index_fits db' url
           then Some (Inr (Created (new_link (next_id t') c url now)),
                      Some \<lparr>rows = rows t' @ [new_link (next_id t') c url now],
                            next_id = Suc (next_id t')\<rparr>,
                      pos)
           else Some (Inl Internal_Error,
                      Some (if pg_text url \<and> next_id t' \<le> 2147483647
                            then t'\<lparr>next_id := Suc (next_id t')\<rparr> else t'),
                      pos))"
    using again by (intro allI impI)
  show ?thesis
    by (rule conjI [OF one conjI [OF c2 conjI [OF c3 conjI [OF c4 conjI [OF c5 c6]]]]])
qed

text \<open>
  The example of the specification: \<^verbatim>\<open>abcdef\<close> is stored for \<^verbatim>\<open>https://x.com\<close>, the same
  request again is a conflict, and after the row has been deleted the code is stored anew.
\<close>

theorem code_uniqueness_witness:
  "reachable \<lparr>rows = [new_link 1 ''abcdef'' ''https://x.com'' 10], next_id = 2\<rparr> \<and>
   distinct (map short_code (rows \<lparr>rows = [new_link 1 ''abcdef'' ''https://x.com'' 10], next_id = 2\<rparr>)) \<and>
   post_links (\<lambda>u. Some ''https:'') example_db (\<lambda>i n. i mod n)
     (Some \<lparr>rows = [new_link 1 ''abcdef'' ''https://x.com'' 10], next_id = 2\<rparr>) 20 0
     ''https://x.com'' (Some ''abcdef'') =
     Some (Inl Code_Exists, Some \<lparr>rows = [new_link 1 ''abcdef'' ''https://x.com'' 10], next_id = 2\<rparr>, 0) \<and>
   delete_link example_db
     (Some \<lparr>rows = [new_link 1 ''abcdef'' ''https://x.com'' 10], next_id = 2\<rparr>) ''abcdef'' =
     (Inr (), Some \<lparr>rows = [], next_id = 2\<rparr>) \<and>
   post_links (\<lambda>u. Some ''https:'') example_db (\<lambda>i n. i mod n) (Some \<lparr>rows = [], next_id = 2\<rparr>) 30 0
     ''https://x.com'' (Some ''abcdef'') =
     Some (Inr (Created (new_link 2 ''abcdef'' ''https://x.com'' 30)),
           Some \<lparr>rows = [new_link 2 ''abcdef'' ''https://x.com'' 30], next_id = 3\<rparr>, 0)"
proof -
  let ?U = "\<lambda>u::string. Some ''https:''"
  let ?rnd = "\<lambda>i n::nat. i mod n"
  let ?t = "\<lparr>rows = [new_link 1 ''abcdef'' ''https://x.com'' 10], next_id = 2\<rparr>"
  have u: "''https://x.com'' \<noteq> []" "isValidUrl ?U ''https://x.com''"
    by (simp_all add: isValidUrl_def)
  have g: "given_code (Some ''abcdef'') = Some ''abcdef''"
    by (simp add: given_code_def)
  have v: "isValidCode ''abcdef''"
    by (simp add: isValidCode_iff alphanumeric_def)
  have s: "pg_text ''https://x.com''" "index_fits example_db ''https://x.com''"
    by (simp_all add: pg_text_def example_db_def)
  have p: "post_links ?U example_db ?rnd (Some empty_table) 10 0 ''https://x.com'' (Some ''abcdef'') =
      Some (Inr (Created (new_link 1 ''abcdef'' ''https://x.com'' 10)), Some ?t, 0)"
    using post_links_custom [OF u g, of example_db ?rnd empty_table 10 0] v s
    by (simp add: empty_table_def)
  have r: "reachable ?t"
    by (rule reachable.post [OF reachable.initial _ p]) simp
  have c: "''abcdef'' \<in> set (map short_code (rows ?t))"
    by (simp add: new_link_def)
  have d: "delete_link example_db (Some ?t) ''abcdef'' = (Inr (), Some \<lparr>rows = [], next_id = 2\<rparr>)"
    by (simp add: delete_link_def delete_by_code_def new_link_def pg_text_def deliver_def)
  note all = code_uniqueness [OF r]
  note one = all [THEN conjunct1]
  note two = all [THEN conjunct2, THEN conjunct1, rule_format, OF c u, where db = example_db
      and rnd = "?rnd" and now = 20 and pos = 0]
  note after = all [THEN conjunct2, THEN conjunct2, THEN conjunct2, THEN conjunct2, THEN conjunct2,
      rule_format, OF c u d, where db' = example_db and rnd = "?rnd" and now = 30 and pos = 0]
  from after s have three: "post_links ?U example_db ?rnd (Some \<lparr>rows = [], next_id = 2\<rparr>) 30 0
      ''https://x.com'' (Some ''abcdef'') =
      Some (Inr (Created (new_link 2 ''abcdef'' ''https://x.com'' 30)),
            Some \<lparr>rows = [new_link 2 ''abcdef'' ''https://x.com'' 30], next_id = 3\<rparr>, 0)"
    by simp
  from r one two d three show ?thesis
    by simp
qed

text \<open>
  Claim C4, as the code has it. The \<^verbatim>\<open>while (codeExists)\<close> loop has no bound on its
  iterations and no answer for exhaustion. Let the random indices be in range and the
  request be one for a new URL that the database stores (no NUL character, room in the
  index, the sequence of \<^verbatim>\<open>id\<close> not exhausted). For every \<open>k\<close>: when the candidates
  before number \<open>k\<close> are all taken and candidate \<open>k\<close> is free, the loop returns candidate
  \<open>k\<close>, after \<open>k\<close> failed attempts, and the route stores the link under that code. When
  every candidate is taken, the loop does not end and the request gets no answer.
\<close>

theorem unique_code_loop_unbounded:
  assumes "req_url \<noteq> []" and "isValidUrl new_URL req_url"
    and "req_url \<notin> set (map target_url (rows t))"
    and "pg_text req_url" and "index_fits db req_url" and "next_id t \<le> 2147483647"
    and "\<forall>i. rnd i 3 < 3 \<and> rnd i 62 < 62"
  shows "((\<forall>j<k. fst (candidate rnd pos j) \<in> set (map short_code (rows t))) \<and>
          fst (candidate rnd pos k) \<notin> set (map short_code (rows t)) \<longrightarrow>
            unique_code_loop db rnd t (fst (generateShortCode rnd pos)) (snd (generateShortCode rnd pos)) =
              Some (Returns (fst (candidate rnd pos k)), snd (candidate rnd pos k)) \<and>
            post_links new_URL db rnd (Some t) now pos req_url None =
              Some (Inr (Created (new_link (next_id t) (fst (candidate rnd pos k)) req_url now)),
                    Some \<lparr>rows = rows t @ [new_link (next_id t) (fst (candidate rnd pos k)) req_url now],
                          next_id = Suc (next_id t)\<rparr>,
                    snd (candidate rnd pos k))) \<and>
         ((\<forall>j. fst (candidate rnd pos j) \<in> set (map short_code (rows t))) \<longrightarrow>
            unique_code_loop db rnd t (fst (generateShortCode rnd pos)) (snd (generateShortCode rnd pos)) =
              None \<and>
            post_links new_URL db rnd (Some t) now pos req_url None = None)"
proof -
  have g: "given_code None = None"
    by (simp add: given_code_def)
  note route = post_links_new_url [OF assms(1,2) g select_by_url_absent [OF assms(4,3)], of db rnd now pos]
  have found: "unique_code_loop db rnd t (fst (generateShortCode rnd pos)) (snd (generateShortCode rnd pos)) =
        Some (Returns (fst (candidate rnd pos k)), snd (candidate rnd pos k)) \<and>
      post_links new_URL db rnd (Some t) now pos req_url None =
        Some (Inr (Created (new_link (next_id t) (fst (candidate rnd pos k)) req_url now)),
              Some \<lparr>rows = rows t @ [new_link (next_id t) (fst (candidate rnd pos k)) req_url now],
                    next_id = Suc (next_id t)\<rparr>,
              snd (candidate rnd pos k))"
    if taken: "\<forall>j<k. fst (candidate rnd pos j) \<in> set (map short_code (rows t))"
      and free: "fst (candidate rnd pos k) \<notin> set (map short_code (rows t))"
  proof -
    from unique_code_loop_candidate [OF assms(7), of k pos 0 t db] taken free
    have l: "unique_code_loop db rnd t (fst (generateShortCode rnd pos)) (snd (generateShortCode rnd pos)) =
        Some (Returns (fst (candidate rnd pos k)), snd (candidate rnd pos k))"
      by simp
    note st = isValidCode_stored [OF candidate_valid [OF assms(7), of pos k]]
    from insert_link_stored [OF st(1,2) free, of db req_url now] assms(4,5,6)
    have "insert_link db t (fst (candidate rnd pos k)) req_url now =
        (Returns (new_link (next_id t) (fst (candidate rnd pos k)) req_url now),
         \<lparr>rows = rows t @ [new_link (next_id t) (fst (candidate rnd pos k)) req_url now],
           next_id = Suc (next_id t)\<rparr>)"
      by (simp add: not_less)
    with route l show ?thesis
      by simp
  qed
  have never: "unique_code_loop db rnd t (fst (generateShortCode rnd pos)) (snd (generateShortCode rnd pos)) =
        None \<and>
      post_links new_URL db rnd (Some t) now pos req_url None = None"
    if "\<forall>j. fst (candidate rnd pos j) \<in> set (map short_code (rows t))"
    using unique_code_loop_diverges [OF assms(7) that, of db] route by simp
  from found never show ?thesis
    by blast
qed

text \<open>
  An instance with 1001 failed attempts. The random indices are 0 in the first 7007 calls of
  \<^verbatim>\<open>Math.random()\<close> and 1 afterwards: the candidates 0 to 1000 are \<^verbatim>\<open>AAAAAA\<close>, which a row
  has, and candidate 1001 is \<^verbatim>\<open>BBBBBBB\<close>, which is stored.
\<close>

theorem unique_code_loop_unbounded_witness:
  "post_links (\<lambda>u. Some ''https:'') example_db (\<lambda>i n. if i < 7007 then 0 else 1)
     (Some \<lparr>rows = [new_link 1 ''AAAAAA'' ''https://google.com'' 10], next_id = 2\<rparr>) 20 0
     ''https://example.com'' None =
     Some (Inr (Created (new_link 2 ''BBBBBBB'' ''https://example.com'' 20)),
           Some \<lparr>rows = [new_link 1 ''AAAAAA'' ''https://google.com'' 10,
                          new_link 2 ''BBBBBBB'' ''https://example.com'' 20], next_id = 3\<rparr>,
           7015)"
proof -
  let ?t = "\<lparr>rows = [new_link 1 ''AAAAAA'' ''https://google.com'' 10], next_id = 2\<rparr>"
  let ?rnd = "\<lambda>i n::nat. if i < 7007 then 0 else 1 :: nat"
  have c: "candidate ?rnd 0 (Suc 1000) = (''BBBBBBB'', 7015)"
    using candidate_first_one [of 1000] by simp
  have u: "''https://example.com'' \<noteq> []" "isValidUrl (\<lambda>u. Some ''https:'') ''https://example.com''"
    "''https://example.com'' \<notin> set (map target_url (rows ?t))"
    "pg_text ''https://example.com''" "index_fits example_db ''https://example.com''"
    "next_id ?t \<le> 2147483647" "\<forall>i. ?rnd i 3 < 3 \<and> ?rnd i 62 < 62"
    by (simp_all add: isValidUrl_def new_link_def pg_text_def example_db_def)
  have taken: "\<forall>j<Suc 1000. fst (candidate ?rnd 0 j) \<in> set (map short_code (rows ?t))"
  proof (intro allI impI)
    fix j :: nat
    assume "j < Suc 1000"
    then have "7 * (j + 1) \<le> 7007"
      by simp
    from candidate_zero_until [OF this]
    show "fst (candidate ?rnd 0 j) \<in> set (map short_code (rows ?t))"
      by (simp add: new_link_def)
  qed
  have free: "fst (candidate ?rnd 0 (Suc 1000)) \<notin> set (map short_code (rows ?t))"
    using c by (simp add: new_link_def)
  from unique_code_loop_unbounded [OF u, of "Suc 1000" 0 20] taken free c show ?thesis
    by simp
qed

text \<open>
  The loop that never ends: the only row has the code \<^verbatim>\<open>AAAAAA\<close>, and every random index is
  0, so that every candidate is \<^verbatim>\<open>AAAAAA\<close>. No error is answered.
\<close>

theorem post_links_no_answer:
  "post_links (\<lambda>u. Some ''https:'') example_db (\<lambda>i n. 0)
     (Some \<lparr>rows = [new_link 1 ''AAAAAA'' ''https://google.com'' 10], next_id = 2\<rparr>) 20 0
     ''https://example.com'' None = None"
proof -
  let ?t = "\<lparr>rows = [new_link 1 ''AAAAAA'' ''https://google.com'' 10], next_id = 2\<rparr>"
  have "fst (candidate (\<lambda>i n. 0) 0 j) = ''AAAAAA''" for j
    by (cases j) (simp_all add: generateShortCode_zero)
  then have all: "\<forall>j. fst (candidate (\<lambda>i n. 0) 0 j) \<in> set (map short_code (rows ?t))"
    by (simp add: new_link_def)
  have sane: "\<forall>i. (\<lambda>i n. 0::nat) i 3 < 3 \<and> (\<lambda>i n. 0::nat) i 62 < 62"
    by simp
  have g: "given_code None = None"
    by (simp add: given_code_def)
  have u: "''https://example.com'' \<noteq> []" "isValidUrl (\<lambda>u. Some ''https:'') ''https://example.com''"
    "select_by_url example_db ?t ''https://example.com'' = Returns []"
    by (simp_all add: isValidUrl_def select_by_url_def new_link_def pg_text_def deliver_def)
  from post_links_new_url [OF u(1,2) g u(3), of "\<lambda>i n. 0" 20 0]
    unique_code_loop_diverges [OF sane all, of example_db]
  show ?thesis
    by simp
qed

text \<open>
  Claim C5, as the code has it. Let the table be one that the schema allows, the target a
  valid URL, and \<open>e\<close> the first row that the \<^verbatim>\<open>SELECT\<close> by \<open>target_url\<close> returns for that very
  string. Then \<open>post_links\<close> without a code inserts nothing. When \<open>creation_count\<close> of \<open>e\<close> is
  below 2147483647, it adds 1 to it, sets \<open>updated_at\<close> of \<open>e\<close> to the current time, leaves every
  other row, the codes and the number of rows as they were, and answers with the row after
  the update (the code is the one of \<open>e\<close>) under the tag \<open>Incremented\<close>. At 2147483647 the
  \<^verbatim>\<open>UPDATE\<close> throws: the answer is \<open>Internal_Error\<close> and the table is as before. The rows are
  compared with the target by equality of strings: on a table where no row has exactly
  this string, the answer is never \<open>Incremented\<close>.
\<close>

theorem post_links_same_url_increments:
  assumes "wf_table t" and "req_url \<noteq> []" and "isValidUrl new_URL req_url"
    and "select_by_url db t req_url = Returns (e # es)"
  shows "post_links new_URL db rnd (Some t) now pos req_url None =
           (if creation_count e < 2147483647
            then Some (Inr (Incremented (Some (e\<lparr>creation_count := creation_count e + 1,
                                                 updated_at := now\<rparr>))),
                       Some (t\<lparr>rows := map (\<lambda>l. if l = e
                                        then e\<lparr>creation_count := creation_count e + 1, updated_at := now\<rparr>
                                        else l) (rows t)\<rparr>),
                       pos)
            else Some (Inl Internal_Error, Some t, pos)) \<and>
         short_code (e\<lparr>creation_count := creation_count e + 1, updated_at := now\<rparr>) = short_code e \<and>
         e \<in> set (rows t) \<and> target_url e = req_url \<and>
         map short_code (map (\<lambda>l. if l = e
                                  then e\<lparr>creation_count := creation_count e + 1, updated_at := now\<rparr>
                                  else l) (rows t)) = map short_code (rows t) \<and>
         (\<forall>t' l p q. req_url \<notin> set (map target_url (rows t')) \<longrightarrow>
            post_links new_URL db rnd (Some t') now pos req_url None \<noteq> Some (Inr (Incremented l), p, q))"
proof -
  have g: "given_code None = None"
    by (simp add: given_code_def)
  note e = select_by_url_first [OF assms(4)]
  have d: "distinct (map link_id (rows t))"
    using assms(1) by (simp add: wf_table_def)
  have first: "post_links new_URL db rnd (Some t) now pos req_url None =
      (if creation_count e < 2147483647
       then Some (Inr (Incremented (Some (e\<lparr>creation_count := creation_count e + 1,
                                            updated_at := now\<rparr>))),
                  Some (t\<lparr>rows := map (\<lambda>l. if l = e
                                   then e\<lparr>creation_count := creation_count e + 1, updated_at := now\<rparr>
                                   else l) (rows t)\<rparr>),
                  pos)
       else Some (Inl Internal_Error, Some t, pos))"
    using post_links_existing_url [OF assms(2,3) g assms(4) d, of rnd now pos]
    by simp
  have codes: "map short_code (map (\<lambda>l. if l = e
        then e\<lparr>creation_count := creation_count e + 1, updated_at := now\<rparr> else l) (rows t)) =
      map short_code (rows t)"
    by (rule nth_equalityI) auto
  have exact: "post_links new_URL db rnd (Some t') now pos req_url None \<noteq> Some (Inr (Incremented l), p, q)"
    if "req_url \<notin> set (map target_url (rows t'))" for t' l p q
  proof (cases "pg_text req_url")
    case False
    from post_links_url_refused [OF assms(2,3) g False, of db rnd t' now pos] show ?thesis
      by simp
  next
    case True
    from post_links_new_url [OF assms(2,3) g select_by_url_absent [OF True that], of db rnd now pos]
    show ?thesis
      by (auto split: option.splits outcome.splits prod.splits)
  qed
  from first e(1,2) codes exact show ?thesis
    by simp
qed

text \<open>
  The example of the specification: a second request for \<^verbatim>\<open>https://google.com\<close> returns
  the code of the first, with \<open>creation_count = 2\<close>. The same URL with a slash at its end
  is another string: that request stores a new link under a generated code.
\<close>

theorem post_links_same_url_increments_witness:
  "post_links (\<lambda>u. Some ''https:'') example_db (\<lambda>i n. i mod n)
     (Some \<lparr>rows = [new_link 1 ''BCDEFG'' ''https://google.com'' 10], next_id = 2\<rparr>) 20 7
     ''https://google.com'' None =
     Some (Inr (Incremented (Some \<lparr>link_id = 1, short_code = ''BCDEFG'', target_url = ''https://google.com'',
                                   total_clicks = 0, creation_count = 2, last_clicked = None,
                                   created_at = 10, updated_at = 20\<rparr>)),
           Some \<lparr>rows = [\<lparr>link_id = 1, short_code = ''BCDEFG'', target_url = ''https://google.com'',
                          total_clicks = 0, creation_count = 2, last_clicked = None,
                          created_at = 10, updated_at = 20\<rparr>], next_id = 2\<rparr>,
           7) \<and>
   post_links (\<lambda>u. Some ''https:'') example_db (\<lambda>i n. i mod n)
     (Some \<lparr>rows = [new_link 1 ''BCDEFG'' ''https://google.com'' 10], next_id = 2\<rparr>) 20 7
     ''https://google.com/'' None =
     Some (Inr (Created (new_link 2 ''IJKLMNO'' ''https://google.com/'' 20)),
           Some \<lparr>rows = [new_link 1 ''BCDEFG'' ''https://google.com'' 10,
                          new_link 2 ''IJKLMNO'' ''https://google.com/'' 20], next_id = 3\<rparr>,
           15)"
proof -
  let ?U = "\<lambda>u::string. Some ''https:''"
  let ?rnd = "\<lambda>i n::nat. i mod n"
  let ?e = "new_link 1 ''BCDEFG'' ''https://google.com'' 10"
  let ?t = "\<lparr>rows = [?e], next_id = 2\<rparr>"
  have w: "wf_table ?t"
    by (simp add: wf_table_def new_link_def pg_text_def)
  have u: "''https://google.com'' \<noteq> []" "isValidUrl ?U ''https://google.com''"
    by (simp_all add: isValidUrl_def)
  have s: "select_by_url example_db ?t ''https://google.com'' = Returns (?e # [])"
    by (simp add: select_by_url_def new_link_def pg_text_def deliver_def)
  note all = post_links_same_url_increments [OF w u s, of ?rnd 20 7]
  from all have same: "post_links ?U example_db ?rnd (Some ?t) 20 7 ''https://google.com'' None =
      Some (Inr (Incremented (Some \<lparr>link_id = 1, short_code = ''BCDEFG'',
                  target_url = ''https://google.com'', total_clicks = 0, creation_count = 2,
                  last_clicked = None, created_at = 10, updated_at = 20\<rparr>)),
            Some \<lparr>rows = [\<lparr>link_id = 1, short_code = ''BCDEFG'', target_url = ''https://google.com'',
                           total_clicks = 0, creation_count = 2, last_clicked = None,
                           created_at = 10, updated_at = 20\<rparr>], next_id = 2\<rparr>,
            7)"
    by (simp add: new_link_def)
  have gen: "generateShortCode ?rnd 7 = (''IJKLMNO'', 15)"
    by code_simp
  have u': "''https://google.com/'' \<noteq> []" "isValidUrl ?U ''https://google.com/''"
    "given_code None = None" "select_by_url example_db ?t ''https://google.com/'' = Returns []"
    by (simp_all add: isValidUrl_def given_code_def select_by_url_def new_link_def pg_text_def
        deliver_def)
  have "unique_code_loop example_db ?rnd ?t ''IJKLMNO'' 15 = Some (Returns ''IJKLMNO'', 15)"
    by (subst unique_code_loop.simps)
      (simp add: select_by_code_def new_link_def pg_text_def deliver_def)
  moreover have "insert_link example_db ?t ''IJKLMNO'' ''https://google.com/'' 20 =
      (Returns (new_link 2 ''IJKLMNO'' ''https://google.com/'' 20),
       \<lparr>rows = [?e, new_link 2 ''IJKLMNO'' ''https://google.com/'' 20], next_id = 3\<rparr>)"
    by (simp add: insert_link_def pg_text_def varchar8_def example_db_def new_link_def)
  ultimately
  have other: "post_links ?U example_db ?rnd (Some ?t) 20 7 ''https://google.com/'' None =
      Some (Inr (Created (new_link 2 ''IJKLMNO'' ''https://google.com/'' 20)),
            Some \<lparr>rows = [?e, new_link 2 ''IJKLMNO'' ''https://google.com/'' 20], next_id = 3\<rparr>, 15)"
    using post_links_new_url [OF u', of ?rnd 20 7] gen
    by simp
  from same other show ?thesis
    by simp
qed

text \<open>
  A link that has been asked for 2147483647 times: the next request for its URL is
  answered \<open>Internal_Error\<close>, and \<open>creation_count\<close> is not incremented.
\<close>

theorem post_links_creation_count_full:
  "post_links (\<lambda>u. Some ''https:'') example_db (\<lambda>i n. i mod n)
     (Some \<lparr>rows = [\<lparr>link_id = 1, short_code = ''BCDEFG'', target_url = ''https://google.com'',
                     total_clicks = 0, creation_count = 2147483647, last_clicked = None,
                     created_at = 10, updated_at = 15\<rparr>], next_id = 2\<rparr>) 20 7
     ''https://google.com'' None =
     Some (Inl Internal_Error,
           Some \<lparr>rows = [\<lparr>link_id = 1, short_code = ''BCDEFG'', target_url = ''https://google.com'',
                          total_clicks = 0, creation_count = 2147483647, last_clicked = None,
                          created_at = 10, updated_at = 15\<rparr>], next_id = 2\<rparr>,
           7)"
  by (simp add: post_links_def isValidUrl_def given_code_def select_by_url_def pg_text_def
      deliver_def update_creation_count_def bump_creation_def integer_plus_1_def)

text \<open>
  Claim C6. \<open>isValidCode\<close> (isWellFormed in the specification) is true for exactly the
  strings of 6, 7 or 8 characters all of which are lower-case letters, upper-case letters
  or digits, and false for every other string.
\<close>

theorem isValidCode_exact:
  "isValidCode code \<longleftrightarrow> length code \<in> {6, 7, 8} \<and> set code \<subseteq> alphanumeric"
proof -
  have "length code \<in> {6, 7, 8} \<longleftrightarrow> 6 \<le> length code \<and> length code \<le> 8"
    by auto
  then show ?thesis
    unfolding isValidCode_iff by blast
qed

theorem isValidCode_exact_witness:
  "\<not> isValidCode ''abc'' \<and> \<not> isValidCode ''abc-123'' \<and> \<not> isValidCode ''abcdefghi'' \<and>
   isValidCode ''aBc123''"
  using isValidCode_exact [of "''abc''"] isValidCode_exact [of "''abc-123''"]
    isValidCode_exact [of "''abcdefghi''"] isValidCode_exact [of "''aBc123''"]
  by (simp add: alphanumeric_def)

text \<open>
  Claim C7. When the random indices are in range (below 3 for the length, below 62 for a
  character), the string that \<open>generateShortCode\<close> returns has 6, 7 or 8 characters, each of
  them from the alphabet of 62 characters, and \<open>isValidCode\<close> accepts it.
\<close>

theorem generateShortCode_wellformed:
  assumes "\<forall>i. rnd i 3 < 3" and "\<forall>i. rnd i 62 < 62"
  shows "length (fst (generateShortCode rnd pos)) \<in> {6, 7, 8} \<and>
         set (fst (generateShortCode rnd pos)) \<subseteq> alphanumeric \<and>
         card alphanumeric = 62 \<and>
         isValidCode (fst (generateShortCode rnd pos))"
proof -
  let ?c = "fst (generateShortCode rnd pos)"
  have len: "length ?c = rnd pos 3 + 6"
    using assms(2) by (simp add: generateShortCode_def Let_def code_loop_length)
  have "rnd pos 3 < 3"
    using assms(1) by simp
  with len have l: "6 \<le> length ?c \<and> length ?c \<le> 8"
    by simp
  then have l': "length ?c \<in> {6, 7, 8}"
    by auto
  have s: "set ?c \<subseteq> alphanumeric"
    using assms(2) by (simp add: generateShortCode_def Let_def code_loop_set)
  have c: "card alphanumeric = 62"
    using distinct_card [OF distinct_chars] by (simp add: set_chars length_chars)
  from l l' s c show ?thesis
    by (simp add: isValidCode_iff)
qed

theorem generateShortCode_wellformed_witness:
  "length (fst (generateShortCode (\<lambda>i n. i mod n) 0)) \<in> {6, 7, 8} \<and>
   set (fst (generateShortCode (\<lambda>i n. i mod n) 0)) \<subseteq> alphanumeric \<and>
   isValidCode (fst (generateShortCode (\<lambda>i n. i mod n) 0))"
  using generateShortCode_wellformed [of "\<lambda>i n. i mod n" 0] by simp

text \<open>
  Claim C8, as the code has it. When no row has the code, \<open>get_link\<close>, \<open>delete_link\<close> and
  \<open>get_code\<close> (get, delete and recordClick in the specification) leave the table as it is
  and add no row; they answer \<open>Not_Found\<close> when the code has no NUL character, and
  \<open>Internal_Error\<close> when it has one, since the database then refuses the parameter and the
  query throws. Moreover a request to \<open>delete_link\<close> or \<open>get_code\<close> that is answered with an
  error leaves the table as it was, and one to \<open>post_links\<close> leaves the rows as they were (an
  \<^verbatim>\<open>INSERT\<close> that fails can use up a value of the sequence).
\<close>

theorem not_found_no_mutation:
  assumes "code \<notin> set (map short_code (rows t))"
  shows "get_link db (Some t) code = Inl (if pg_text code then Not_Found else Internal_Error) \<and>
         delete_link db (Some t) code =
           (Inl (if pg_text code then Not_Found else Internal_Error), Some t) \<and>
         get_code db (Some t) now code =
           (Inl (if pg_text code then Not_Found else Internal_Error), Some t) \<and>
         (\<forall>new_URL db rnd pool now pos url sc e p q.
            post_links new_URL db rnd pool now pos url sc = Some (Inl e, p, q) \<longrightarrow>
              map_option rows p = map_option rows pool) \<and>
         (\<forall>db pool c e p. delete_link db pool c = (Inl e, p) \<longrightarrow> p = pool) \<and>
         (\<forall>db pool now c e p. get_code db pool now c = (Inl e, p) \<longrightarrow> p = pool)"
proof -
  have "\<forall>new_URL db rnd pool now pos url sc e p q.
      post_links new_URL db rnd pool now pos url sc = Some (Inl e, p, q) \<longrightarrow>
        map_option rows p = map_option rows pool"
    using post_links_error_rows by blast
  moreover have "\<forall>db pool c e p. delete_link db pool c = (Inl e, p) \<longrightarrow> p = pool"
    using delete_link_error_unchanged by blast
  moreover have "\<forall>db pool now c e p. get_code db pool now c = (Inl e, p) \<longrightarrow> p = pool"
    using get_code_error_unchanged by blast
  ultimately show ?thesis
    using get_link_absent [OF assms, of db] delete_link_absent [OF assms, of db]
      get_code_absent [OF assms, of db now]
    by simp
qed

theorem not_found_no_mutation_witness:
  "get_link example_db
     (Some \<lparr>rows = [new_link 1 ''abcdef'' ''https://google.com'' 10], next_id = 2\<rparr>) ''ghijkl'' =
     Inl Not_Found \<and>
   delete_link example_db
     (Some \<lparr>rows = [new_link 1 ''abcdef'' ''https://google.com'' 10], next_id = 2\<rparr>) ''ghijkl'' =
     (Inl Not_Found, Some \<lparr>rows = [new_link 1 ''abcdef'' ''https://google.com'' 10], next_id = 2\<rparr>) \<and>
   get_code example_db
     (Some \<lparr>rows = [new_link 1 ''abcdef'' ''https://google.com'' 10], next_id = 2\<rparr>) 20 ''ghijkl'' =
     (Inl Not_Found, Some \<lparr>rows = [new_link 1 ''abcdef'' ''https://google.com'' 10], next_id = 2\<rparr>)"
proof -
  have "''ghijkl'' \<notin> set (map short_code
      (rows \<lparr>rows = [new_link 1 ''abcdef'' ''https://google.com'' 10], next_id = 2\<rparr>))"
    by (simp add: new_link_def)
  from not_found_no_mutation [OF this, of example_db 20] show ?thesis
    by (simp add: pg_text_def)
qed

text \<open>
  A code with a NUL character, which no row has: the three routes answer
  \<open>Internal_Error\<close>, not \<open>Not_Found\<close>.
\<close>

theorem not_found_refused_code:
  "get_link example_db
     (Some \<lparr>rows = [new_link 1 ''abcdef'' ''https://google.com'' 10], next_id = 2\<rparr>)
     [CHR ''a'', CHR 0x00] = Inl Internal_Error \<and>
   delete_link example_db
     (Some \<lparr>rows = [new_link 1 ''abcdef'' ''https://google.com'' 10], next_id = 2\<rparr>)
     [CHR ''a'', CHR 0x00] =
     (Inl Internal_Error, Some \<lparr>rows = [new_link 1 ''abcdef'' ''https://google.com'' 10], next_id = 2\<rparr>) \<and>
   get_code example_db
     (Some \<lparr>rows = [new_link 1 ''abcdef'' ''https://google.com'' 10], next_id = 2\<rparr>) 20
     [CHR ''a'', CHR 0x00] =
     (Inl Internal_Error, Some \<lparr>rows = [new_link 1 ''abcdef'' ''https://google.com'' 10], next_id = 2\<rparr>)"
  by (simp add: get_link_def delete_link_def get_code_def select_by_code_def delete_by_code_def
      update_clicks_def pg_text_def)

text \<open>
  Claim C9, as the code has it. The three routes on a code never test its shape, and none
  of them answers \<open>Invalid_Code\<close> on any input. For a string that \<open>isValidCode\<close> rejects and
  that no row has as its code, each of them answers \<open>Not_Found\<close> when the string has no
  NUL character, and \<open>Internal_Error\<close> when it has one.
\<close>

theorem lookups_do_not_validate:
  assumes "\<not> isValidCode code" and "code \<notin> set (map short_code (rows t))"
  shows "get_link db (Some t) code = Inl (if pg_text code then Not_Found else Internal_Error) \<and>
         fst (delete_link db (Some t) code) = Inl (if pg_text code then Not_Found else Internal_Error) \<and>
         fst (get_code db (Some t) now code) = Inl (if pg_text code then Not_Found else Internal_Error) \<and>
         (\<forall>db' pool c now'. get_link db' pool c \<noteq> Inl Invalid_Code \<and>
            fst (delete_link db' pool c) \<noteq> Inl Invalid_Code \<and>
            fst (get_code db' pool now' c) \<noteq> Inl Invalid_Code)"
  using get_link_absent [OF assms(2), of db] delete_link_absent [OF assms(2), of db]
    get_code_absent [OF assms(2), of db now] no_Invalid_Code
  by simp

theorem lookups_do_not_validate_witness:
  "get_link example_db
     (Some \<lparr>rows = [new_link 1 ''abcdef'' ''https://google.com'' 10], next_id = 2\<rparr>) ''abc-123'' =
     Inl Not_Found \<and>
   fst (delete_link example_db
     (Some \<lparr>rows = [new_link 1 ''abcdef'' ''https://google.com'' 10], next_id = 2\<rparr>) ''abc'') =
     Inl Not_Found \<and>
   fst (get_code example_db
     (Some \<lparr>rows = [new_link 1 ''abcdef'' ''https://google.com'' 10], next_id = 2\<rparr>) 20
     ''abcdefghi'') = Inl Not_Found"
proof -
  let ?t = "\<lparr>rows = [new_link 1 ''abcdef'' ''https://google.com'' 10], next_id = 2\<rparr>"
  have v: "\<not> isValidCode ''abc-123''" "\<not> isValidCode ''abc''" "\<not> isValidCode ''abcdefghi''"
    by (simp_all add: isValidCode_iff alphanumeric_def)
  have n: "''abc-123'' \<notin> set (map short_code (rows ?t))" "''abc'' \<notin> set (map short_code (rows ?t))"
    "''abcdefghi'' \<notin> set (map short_code (rows ?t))"
    by (simp_all add: new_link_def)
  show ?thesis
    using lookups_do_not_validate [OF v(1) n(1), of example_db 20]
      lookups_do_not_validate [OF v(2) n(2), of example_db 20]
      lookups_do_not_validate [OF v(3) n(3), of example_db 20]
    by (simp add: pg_text_def)
qed

text \<open>
  The string of the one character NUL fails the pattern and is the code of no row, and the
  answer of each route is \<open>Internal_Error\<close>.
\<close>

theorem lookups_refuse_NUL:
  "\<not> isValidCode [CHR 0x00] \<and>
   [CHR 0x00] \<notin> set (map short_code (rows empty_table)) \<and>
   get_link example_db (Some empty_table) [CHR 0x00] = Inl Internal_Error \<and>
   fst (delete_link example_db (Some empty_table) [CHR 0x00]) = Inl Internal_Error \<and>
   fst (get_code example_db (Some empty_table) 20 [CHR 0x00]) = Inl Internal_Error"
  by (simp add: isValidCode_iff get_link_def delete_link_def get_code_def select_by_code_def
      delete_by_code_def update_clicks_def pg_text_def empty_table_def)

text \<open>
  Claim C10, as the code has it. \<open>target_url\<close> is not unique. On a table that the schema
  allows and that has a row for a valid URL, \<open>post_links\<close> with that URL and a well-formed
  code that no row has stores a second row with the same \<open>target_url\<close>, when the index has
  room for the URL and the sequence of \<^verbatim>\<open>id\<close> is not exhausted: the path with a code never
  looks for the URL. A request without a code for that URL on the table so obtained
  touches one row only, the row \<open>e\<close> that the \<^verbatim>\<open>SELECT\<close> by \<open>target_url\<close> returns first; the
  query has no \<^verbatim>\<open>ORDER BY\<close>, so that \<open>e\<close> is the older or the newer row as the database
  delivers them. When \<open>creation_count\<close> of \<open>e\<close> is below 2147483647 the request adds 1 to it
  and every other row stays as it was; at 2147483647 the answer is \<open>Internal_Error\<close> and
  no row changes.
\<close>

theorem target_url_not_unique:
  assumes "wf_table t" and "req_url \<noteq> []" and "isValidUrl new_URL req_url"
    and "req_url \<in> set (map target_url (rows t))"
    and "isValidCode c" and "c \<notin> set (map short_code (rows t))"
    and "index_fits db req_url" and "next_id t \<le> 2147483647"
  shows "post_links new_URL db rnd (Some t) now pos req_url (Some c) =
           Some (Inr (Created (new_link (next_id t) c req_url now)),
                 Some \<lparr>rows = rows t @ [new_link (next_id t) c req_url now], next_id = Suc (next_id t)\<rparr>,
                 pos) \<and>
         target_url (new_link (next_id t) c req_url now) = req_url \<and>
         creation_count (new_link (next_id t) c req_url now) = 1 \<and>
         2 \<le> length (filter (\<lambda>l. target_url l = req_url) (rows t @ [new_link (next_id t) c req_url now])) \<and>
         (\<forall>db'. \<exists>e es.
            select_by_url db' \<lparr>rows = rows t @ [new_link (next_id t) c req_url now],
                                next_id = Suc (next_id t)\<rparr> req_url = Returns (e # es)) \<and>
         (\<forall>db' rnd' now' pos' e es.
            select_by_url db' \<lparr>rows = rows t @ [new_link (next_id t) c req_url now],
                                next_id = Suc (next_id t)\<rparr> req_url = Returns (e # es) \<longrightarrow>
              e \<in> set (rows t @ [new_link (next_id t) c req_url now]) \<and> target_url e = req_url \<and>
              post_links new_URL db' rnd' (Some \<lparr>rows = rows t @ [new_link (next_id t) c req_url now],
                                                  next_id = Suc (next_id t)\<rparr>) now' pos' req_url None =
                (if creation_count e < 2147483647
                 then Some (Inr (Incremented (Some (e\<lparr>creation_count := creation_count e + 1,
                                                      updated_at := now'\<rparr>))),
                            Some \<lparr>rows = map (\<lambda>l. if l = e
                                            then e\<lparr>creation_count := creation_count e + 1,
                                                   updated_at := now'\<rparr>
                                            else l) (rows t @ [new_link (next_id t) c req_url now]),
                                  next_id = Suc (next_id t)\<rparr>,
                            pos')
                 else Some (Inl Internal_Error,
                            Some \<lparr>rows = rows t @ [new_link (next_id t) c req_url now],
                                  next_id = Suc (next_id t)\<rparr>,
                            pos')))"
proof -
  let ?n = "new_link (next_id t) c req_url now"
  let ?t1 = "\<lparr>rows = rows t @ [?n], next_id = Suc (next_id t)\<rparr>"
  note st = isValidCode_stored [OF assms(5)]
  have g: "given_code (Some c) = Some c"
    using st(3) by (simp add: given_code_def)
  have g': "given_code None = None"
    by (simp add: given_code_def)
  have p: "pg_text req_url"
    using assms(1,4) by (auto simp: wf_table_def list_all_iff)
  have first: "post_links new_URL db rnd (Some t) now pos req_url (Some c) =
      Some (Inr (Created ?n), Some ?t1, pos)"
    using post_links_custom [OF assms(2,3) g, of db rnd t now pos] assms(5-8) p
    by (simp add: not_less)
  have w1: "wf_table ?t1"
    by (rule wf_table_append [OF assms(1) st(1) p assms(6)])
  then have d1: "distinct (map link_id (rows ?t1))"
    by (simp add: wf_table_def)
  from assms(4) have "filter (\<lambda>l. target_url l = req_url) (rows t) \<noteq> []"
    by (auto simp: filter_empty_conv)
  then have "1 \<le> length (filter (\<lambda>l. target_url l = req_url) (rows t))"
    by (cases "filter (\<lambda>l. target_url l = req_url) (rows t)") simp_all
  then have two: "2 \<le> length (filter (\<lambda>l. target_url l = req_url) (rows t @ [?n]))"
    by (simp add: new_link_def)
  have some: "\<exists>e es. select_by_url db' ?t1 req_url = Returns (e # es)" for db'
  proof -
    from two have "filter (\<lambda>l. target_url l = req_url) (rows ?t1) \<noteq> []"
      by auto
    then have "deliver db' (filter (\<lambda>l. target_url l = req_url) (rows ?t1)) \<noteq> []"
      by (simp only: deliver_eq_Nil) simp
    with p show ?thesis
      by (cases "deliver db' (filter (\<lambda>l. target_url l = req_url) (rows ?t1))")
        (simp_all add: select_by_url_def)
  qed
  have later: "e \<in> set (rows t @ [?n]) \<and> target_url e = req_url \<and>
      post_links new_URL db' rnd' (Some ?t1) now' pos' req_url None =
        (if creation_count e < 2147483647
         then Some (Inr (Incremented (Some (e\<lparr>creation_count := creation_count e + 1,
                                              updated_at := now'\<rparr>))),
                    Some \<lparr>rows = map (\<lambda>l. if l = e
                                    then e\<lparr>creation_count := creation_count e + 1, updated_at := now'\<rparr>
                                    else l) (rows t @ [?n]),
                          next_id = Suc (next_id t)\<rparr>,
                    pos')
         else Some (Inl Internal_Error, Some ?t1, pos'))"
    if s: "select_by_url db' ?t1 req_url = Returns (e # es)" for db' rnd' now' pos' e es
    using post_links_existing_url [OF assms(2,3) g' s d1, of rnd' now' pos'] select_by_url_first(1,2) [OF s]
    by simp
  have l1: "\<forall>db'. \<exists>e es. select_by_url db' ?t1 req_url = Returns (e # es)"
    using some by (intro allI)
  have l2: "\<forall>db' rnd' now' pos' e es.
      select_by_url db' ?t1 req_url = Returns (e # es) \<longrightarrow>
        e \<in> set (rows t @ [?n]) \<and> target_url e = req_url \<and>
        post_links new_URL db' rnd' (Some ?t1) now' pos' req_url None =
          (if creation_count e < 2147483647
           then Some (Inr (Incremented (Some (e\<lparr>creation_count := creation_count e + 1,
                                                updated_at := now'\<rparr>))),
                      Some \<lparr>rows = map (\<lambda>l. if l = e
                                      then e\<lparr>creation_count := creation_count e + 1, updated_at := now'\<rparr>
                                      else l) (rows t @ [?n]),
                            next_id = Suc (next_id t)\<rparr>,
                      pos')
           else Some (Inl Internal_Error, Some ?t1, pos'))"
    using later by (intro allI impI)
  have u: "target_url ?n = req_url" and k: "creation_count ?n = 1"
    by (simp_all add: new_link_def)
  show ?thesis
    by (rule conjI [OF first conjI [OF u conjI [OF k conjI [OF two conjI [OF l1 l2]]]]])
qed

text \<open>
  An instance: \<^verbatim>\<open>google1\<close> is stored for the URL of the row \<^verbatim>\<open>BCDEFG\<close>. The next request
  without a code increments the older row when the database delivers the rows in the order
  of their \<^verbatim>\<open>id\<close>, and the newer row when it delivers them in the opposite order.
\<close>

theorem target_url_not_unique_witness:
  "post_links (\<lambda>u. Some ''https:'') example_db (\<lambda>i n. i mod n)
     (Some \<lparr>rows = [new_link 1 ''BCDEFG'' ''https://google.com'' 10], next_id = 2\<rparr>) 20 7
     ''https://google.com'' (Some ''google1'') =
     Some (Inr (Created (new_link 2 ''google1'' ''https://google.com'' 20)),
           Some \<lparr>rows = [new_link 1 ''BCDEFG'' ''https://google.com'' 10,
                          new_link 2 ''google1'' ''https://google.com'' 20], next_id = 3\<rparr>,
           7) \<and>
   post_links (\<lambda>u. Some ''https:'') example_db (\<lambda>i n. i mod n)
     (Some \<lparr>rows = [new_link 1 ''BCDEFG'' ''https://google.com'' 10,
                    new_link 2 ''google1'' ''https://google.com'' 20], next_id = 3\<rparr>) 30 7
     ''https://google.com'' None =
     Some (Inr (Incremented (Some \<lparr>link_id = 1, short_code = ''BCDEFG'', target_url = ''https://google.com'',
                                   total_clicks = 0, creation_count = 2, last_clicked = None,
                                   created_at = 10, updated_at = 30\<rparr>)),
           Some \<lparr>rows = [\<lparr>link_id = 1, short_code = ''BCDEFG'', target_url = ''https://google.com'',
                          total_clicks = 0, creation_count = 2, last_clicked = None,
                          created_at = 10, updated_at = 30\<rparr>,
                          new_link 2 ''google1'' ''https://google.com'' 20], next_id = 3\<rparr>,
           7) \<and>
   post_links (\<lambda>u. Some ''https:'') (example_db\<lparr>row_key := \<lambda>l. 2 - link_id l\<rparr>) (\<lambda>i n. i mod n)
     (Some \<lparr>rows = [new_link 1 ''BCDEFG'' ''https://google.com'' 10,
                    new_link 2 ''google1'' ''https://google.com'' 20], next_id = 3\<rparr>) 30 7
     ''https://google.com'' None =
     Some (Inr (Incremented (Some \<lparr>link_id = 2, short_code = ''google1'', target_url = ''https://google.com'',
                                   total_clicks = 0, creation_count = 2, last_clicked = None,
                                   created_at = 20, updated_at = 30\<rparr>)),
           Some \<lparr>rows = [new_link 1 ''BCDEFG'' ''https://google.com'' 10,
                          \<lparr>link_id = 2, short_code = ''google1'', target_url = ''https://google.com'',
                          total_clicks = 0, creation_count = 2, last_clicked = None,
                          created_at = 20, updated_at = 30\<rparr>], next_id = 3\<rparr>,
           7)"
proof -
  let ?U = "\<lambda>u::string. Some ''https:''"
  let ?rnd = "\<lambda>i n::nat. i mod n"
  let ?e = "new_link 1 ''BCDEFG'' ''https://google.com'' 10"
  let ?n = "new_link 2 ''google1'' ''https://google.com'' 20"
  let ?t = "\<lparr>rows = [?e], next_id = 2\<rparr>"
  let ?t1 = "\<lparr>rows = [?e, ?n], next_id = 3\<rparr>"
  let ?db' = "example_db\<lparr>row_key := \<lambda>l. 2 - link_id l\<rparr>"
  have w: "wf_table ?t"
    by (simp add: wf_table_def new_link_def pg_text_def)
  have u: "''https://google.com'' \<noteq> []" "isValidUrl ?U ''https://google.com''"
    "''https://google.com'' \<in> set (map target_url (rows ?t))"
    by (simp_all add: isValidUrl_def new_link_def)
  have c: "isValidCode ''google1''" "''google1'' \<notin> set (map short_code (rows ?t))"
    "index_fits example_db ''https://google.com''" "next_id ?t \<le> 2147483647"
    by (simp_all add: isValidCode_iff alphanumeric_def new_link_def example_db_def)
  note all = target_url_not_unique [OF w u c, of ?rnd 20 7]
  from all have first: "post_links ?U example_db ?rnd (Some ?t) 20 7 ''https://google.com''
      (Some ''google1'') = Some (Inr (Created ?n), Some ?t1, 7)"
    by simp
  note later = all [THEN conjunct2, THEN conjunct2, THEN conjunct2, THEN conjunct2, THEN conjunct2,
      rule_format]
  have s: "select_by_url example_db ?t1 ''https://google.com'' = Returns (?e # [?n])"
    by (simp add: select_by_url_def new_link_def pg_text_def deliver_def example_db_def)
  have s': "select_by_url ?db' ?t1 ''https://google.com'' = Returns (?n # [?e])"
    by (simp add: select_by_url_def new_link_def pg_text_def deliver_def example_db_def)
  from later [of example_db ?e "[?n]" ?rnd 30 7] s
  have older: "post_links ?U example_db ?rnd (Some ?t1) 30 7 ''https://google.com'' None =
      Some (Inr (Incremented (Some \<lparr>link_id = 1, short_code = ''BCDEFG'',
                  target_url = ''https://google.com'', total_clicks = 0, creation_count = 2,
                  last_clicked = None, created_at = 10, updated_at = 30\<rparr>)),
            Some \<lparr>rows = [\<lparr>link_id = 1, short_code = ''BCDEFG'', target_url = ''https://google.com'',
                           total_clicks = 0, creation_count = 2, last_clicked = None,
                           created_at = 10, updated_at = 30\<rparr>, ?n], next_id = 3\<rparr>,
            7)"
    by (simp add: new_link_def)
  from later [of ?db' ?n "[?e]" ?rnd 30 7] s'
  have newer: "post_links ?U ?db' ?rnd (Some ?t1) 30 7 ''https://google.com'' None =
      Some (Inr (Incremented (Some \<lparr>link_id = 2, short_code = ''google1'',
                  target_url = ''https://google.com'', total_clicks = 0, creation_count = 2,
                  last_clicked = None, created_at = 20, updated_at = 30\<rparr>)),
            Some \<lparr>rows = [?e, \<lparr>link_id = 2, short_code = ''google1'',
                           target_url = ''https://google.com'', total_clicks = 0, creation_count = 2,
                           last_clicked = None, created_at = 20, updated_at = 30\<rparr>], next_id = 3\<rparr>,
            7)"
    by (simp add: new_link_def)
  from first older newer show ?thesis
    by simp
qed

text \<open>
  The row for the URL has been asked for 2147483647 times. \<^verbatim>\<open>google1\<close> is stored for its
  URL; the next request without a code is answered \<open>Internal_Error\<close> and increments no
  \<open>creation_count\<close>.
\<close>

theorem target_url_later_request_fails:
  "post_links (\<lambda>u. Some ''https:'') example_db (\<lambda>i n. i mod n)
     (Some \<lparr>rows = [\<lparr>link_id = 1, short_code = ''BCDEFG'', target_url = ''https://google.com'',
                     total_clicks = 0, creation_count = 2147483647, last_clicked = None,
                     created_at = 10, updated_at = 15\<rparr>], next_id = 2\<rparr>) 20 7
     ''https://google.com'' (Some ''google1'') =
     Some (Inr (Created (new_link 2 ''google1'' ''https://google.com'' 20)),
           Some \<lparr>rows = [\<lparr>link_id = 1, short_code = ''BCDEFG'', target_url = ''https://google.com'',
                          total_clicks = 0, creation_count = 2147483647, last_clicked = None,
                          created_at = 10, updated_at = 15\<rparr>,
                          new_link 2 ''google1'' ''https://google.com'' 20], next_id = 3\<rparr>,
           7) \<and>
   post_links (\<lambda>u. Some ''https:'') example_db (\<lambda>i n. i mod n)
     (Some \<lparr>rows = [\<lparr>link_id = 1, short_code = ''BCDEFG'', target_url = ''https://google.com'',
                     total_clicks = 0, creation_count = 2147483647, last_clicked = None,
                     created_at = 10, updated_at = 15\<rparr>,
                    new_link 2 ''google1'' ''https://google.com'' 20], next_id = 3\<rparr>) 30 7
     ''https://google.com'' None =
     Some (Inl Internal_Error,
           Some \<lparr>rows = [\<lparr>link_id = 1, short_code = ''BCDEFG'', target_url = ''https://google.com'',
                          total_clicks = 0, creation_count = 2147483647, last_clicked = None,
                          created_at = 10, updated_at = 15\<rparr>,
                          new_link 2 ''google1'' ''https://google.com'' 20], next_id = 3\<rparr>,
           7)"
proof -
  have v: "isValidCode ''google1''"
    by (simp add: isValidCode_iff alphanumeric_def)
  have g: "given_code (Some ''google1'') = Some ''google1''" "given_code None = None"
    by (simp_all add: given_code_def)
  have u: "''https://google.com'' \<noteq> []" "isValidUrl (\<lambda>u. Some ''https:'') ''https://google.com''"
    by (simp_all add: isValidUrl_def)
  show ?thesis
    using v post_links_custom [OF u g(1), of example_db "\<lambda>i n. i mod n"
        "\<lparr>rows = [\<lparr>link_id = 1, short_code = ''BCDEFG'', target_url = ''https://google.com'',
                     total_clicks = 0, creation_count = 2147483647, last_clicked = None,
                     created_at = 10, updated_at = 15\<rparr>], next_id = 2\<rparr>" 20 7]
    by (simp add: post_links_def [of _ _ _ _ 30] u g select_by_url_def pg_text_def deliver_def
        example_db_def update_creation_count_def bump_creation_def integer_plus_1_def new_link_def)
qed


end
